theory Spec2Isabelle
  imports Complex_Main "HOL-Library.List_Lexorder" "HOL-Library.Char_ord"
begin

section \<open>Numbers\<close>

text \<open>
  The engines compute on JavaScript numbers.  They are modelled as exact reals: every
  arithmetic operation is the mathematical one, and the non-finite values (NaN and the
  infinities) have no counterpart.  \<open>Math.round\<close> rounds to the nearest integer with
  halves going up, \<open>Math.min\<close> and \<open>Math.max\<close> are \<open>min\<close> and \<open>max\<close>.
\<close>

definition Math_round :: "real \<Rightarrow> int" where
  "Math_round x = \<lfloor>x + 1 / 2\<rfloor>"

section \<open>Longevity engine (src/engine/longevity-engine.ts)\<close>

datatype Sex = Male | Female

datatype error = TypeError

record SurvivalPoint =
  age :: int
  probability :: real

definition LIFE_TABLE_QX_MALE :: "(real \<times> real) list" where
  "LIFE_TABLE_QX_MALE =
    [(0, 0.00600), (1, 0.00040), (5, 0.00015), (10, 0.00012),
     (15, 0.00060), (20, 0.00130), (25, 0.00160), (30, 0.00170),
     (35, 0.00200), (40, 0.00250), (45, 0.00380), (50, 0.00580),
     (55, 0.00900), (60, 0.01350), (65, 0.01900), (70, 0.02700),
     (75, 0.04200), (80, 0.06700), (85, 0.10500), (90, 0.16500),
     (95, 0.25000), (100, 0.38000), (105, 0.50000), (110, 1.0)]"

definition LIFE_TABLE_QX_FEMALE :: "(real \<times> real) list" where
  "LIFE_TABLE_QX_FEMALE =
    [(0, 0.00500), (1, 0.00035), (5, 0.00012), (10, 0.00010),
     (15, 0.00030), (20, 0.00050), (25, 0.00060), (30, 0.00070),
     (35, 0.00090), (40, 0.00140), (45, 0.00220), (50, 0.00350),
     (55, 0.00550), (60, 0.00850), (65, 0.01250), (70, 0.01900),
     (75, 0.03100), (80, 0.05200), (85, 0.08800), (90, 0.14500),
     (95, 0.22000), (100, 0.35000), (105, 0.48000), (110, 1.0)]"

text \<open>
  The \<open>for\<close> loop of \<open>interpolateQx\<close> over the consecutive rows of the table: the first
  row pair whose ages bracket \<open>x\<close> gives the linear blend; \<open>None\<close> when the loop falls
  through.
\<close>

fun qxScan :: "(real \<times> real) list \<Rightarrow> real \<Rightarrow> real option" where
  "qxScan ((a0, q0) # (a1, q1) # rest) x =
     (if a0 \<le> x \<and> x < a1 then Some (q0 + (x - a0) / (a1 - a0) * (q1 - q0))
      else qxScan ((a1, q1) # rest) x)"
| "qxScan _ x = None"

text \<open>
  \<open>interpolateQx\<close> is private to the module and only ever applied to the two tables
  above, which are not empty, so \<open>table[0]\<close> and \<open>table[table.length - 1]\<close> are
  \<open>hd\<close> and \<open>last\<close>.
\<close>

definition interpolateQx :: "(real \<times> real) list \<Rightarrow> real \<Rightarrow> real" where
  "interpolateQx table x =
     (if x \<le> fst (hd table) then snd (hd table)
      else if fst (last table) \<le> x then snd (last table)
      else (case qxScan table x of Some q \<Rightarrow> q | None \<Rightarrow> snd (last table)))"

text \<open>
  The loop of \<open>computeSurvivalCurve\<close>: \<open>a\<close> is the loop variable \<open>age\<close> (an integer,
  it starts at \<open>Math.floor(currentAge)\<close>), \<open>survival\<close> the running product.
\<close>

function survivalLoop ::
  "(real \<times> real) list \<Rightarrow> real \<Rightarrow> int \<Rightarrow> real \<Rightarrow> SurvivalPoint list" where
  "survivalLoop table maxAge a survival =
     (if of_int a \<le> maxAge
      then \<lparr>age = a, probability = survival\<rparr> #
           survivalLoop table maxAge (a + 1) (survival * (1 - interpolateQx table (of_int a)))
      else [])"
  by pat_completeness auto
termination
  by (relation "measure (\<lambda>(table, maxAge, a, survival). nat (\<lfloor>maxAge\<rfloor> - a + 1))")
     (auto simp: le_floor_iff)

declare survivalLoop.simps [simp del]

definition lifeTable :: "Sex \<Rightarrow> (real \<times> real) list" where
  "lifeTable sex = (if sex = Male then LIFE_TABLE_QX_MALE else LIFE_TABLE_QX_FEMALE)"

definition computeSurvivalCurve :: "real \<Rightarrow> Sex \<Rightarrow> real \<Rightarrow> SurvivalPoint list" where
  "computeSurvivalCurve currentAge sex maxAge =
     survivalLoop (lifeTable sex) maxAge \<lfloor>currentAge\<rfloor> 1"

text \<open>The default value of the parameter \<open>maxAge\<close>.\<close>

definition defaultMaxAge :: real where
  "defaultMaxAge = 110"

text \<open>
  The summation loop of \<open>lifeExpectancyAtAge\<close>, from \<open>i = 1\<close>: each step adds the mean
  of two neighbouring probabilities to the running \<open>sum\<close> (here \<open>acc\<close>).
\<close>

fun trapezoidLoop :: "real \<Rightarrow> SurvivalPoint list \<Rightarrow> real" where
  "trapezoidLoop acc (p # q # rest) =
     trapezoidLoop (acc + (probability p + probability q) / 2) (q # rest)"
| "trapezoidLoop acc _ = acc"

definition lifeExpectancyAtAge :: "real \<Rightarrow> Sex \<Rightarrow> real" where
  "lifeExpectancyAtAge currentAge sex =
     of_int (Math_round
       (trapezoidLoop 0 (computeSurvivalCurve currentAge sex defaultMaxAge) * 10)) / 10"

record LongevityPercentiles =
  p25 :: real
  p50 :: real
  p75 :: real
  p90 :: real

text \<open>
  The loop of \<open>findAge\<close>, from \<open>i = 1\<close>, over neighbouring curve points \<open>prev\<close>,
  \<open>curr\<close> (here \<open>prv\<close>, \<open>cur\<close>); \<open>None\<close> when no point is at or below the target.
\<close>

fun findAgeLoop :: "real \<Rightarrow> SurvivalPoint list \<Rightarrow> real option" where
  "findAgeLoop targetSurvival (prv # cur # rest) =
     (if probability cur \<le> targetSurvival
      then (let t = (probability prv - targetSurvival) / (probability prv - probability cur)
            in Some (of_int (Math_round
                 ((of_int (age prv) + t * (of_int (age cur) - of_int (age prv))) * 10)) / 10))
      else findAgeLoop targetSurvival (cur # rest))"
| "findAgeLoop targetSurvival _ = None"

text \<open>
  After the loop \<open>findAge\<close> reads \<open>curve[curve.length - 1].age\<close>; on an empty curve
  that is a property access on \<open>undefined\<close>, which throws a \<open>TypeError\<close>.
\<close>

definition findAge :: "SurvivalPoint list \<Rightarrow> real \<Rightarrow> error + real" where
  "findAge curve targetSurvival =
     (case findAgeLoop targetSurvival curve of
        Some a \<Rightarrow> Inr a
      | None \<Rightarrow> if curve = [] then Inl TypeError else Inr (of_int (age (last curve))))"

definition computePercentiles :: "real \<Rightarrow> Sex \<Rightarrow> error + LongevityPercentiles" where
  "computePercentiles currentAge sex =
     (let curve = computeSurvivalCurve currentAge sex defaultMaxAge in
      case findAge curve 0.75 of Inl e \<Rightarrow> Inl e | Inr a25 \<Rightarrow>
     (case findAge curve 0.50 of Inl e \<Rightarrow> Inl e | Inr a50 \<Rightarrow>
     (case findAge curve 0.25 of Inl e \<Rightarrow> Inl e | Inr a75 \<Rightarrow>
     (case findAge curve 0.10 of Inl e \<Rightarrow> Inl e | Inr a90 \<Rightarrow>
        Inr \<lparr>p25 = a25, p50 = a50, p75 = a75, p90 = a90\<rparr>))))"

record CareNeedsProbability =
  age :: int
  independentLiving :: real
  lightAssistance :: real
  moderateAssistance :: real
  fullCare :: real

definition genderFactor :: "Sex \<Rightarrow> real" where
  "genderFactor sex = (if sex = Female then 1.15 else 1.0)"

text \<open>
  The body of the loop of \<open>computeCareNeedsCurve\<close> up to the normalisation: the four
  unnormalised shares \<open>(independent, light, moderate, full)\<close> at age \<open>a\<close>.
\<close>

definition careShares :: "int \<Rightarrow> Sex \<Rightarrow> real \<times> real \<times> real \<times> real" where
  "careShares a sex =
     (let g = genderFactor sex in
      if a < 60 then (0.95, 0.03, 0.015, 0.005)
      else if a < 70 then
        (let t = (of_int a - 60) / 10 in
         (0.95 - t * 0.12 * g, 0.03 + t * 0.06 * g, 0.015 + t * 0.04 * g, 0.005 + t * 0.02 * g))
      else if a < 80 then
        (let t = (of_int a - 70) / 10 in
         ((0.83 - t * 0.25) * (2 - g), 0.09 + t * 0.10 * g, 0.055 + t * 0.10 * g,
          0.025 + t * 0.05 * g))
      else if a < 90 then
        (let t = (of_int a - 80) / 10 in
         ((0.58 - t * 0.30) * (2 - g), 0.19 + t * 0.05, 0.155 + t * 0.15 * g,
          0.075 + t * 0.10 * g))
      else
        (let t = min ((of_int a - 90) / 10) 1 in
         (max (0.28 - t * 0.20) 0.05, 0.24 - t * 0.05, 0.305 + t * 0.05, 0.175 + t * 0.20)))"

text \<open>The normalisation and the record pushed for age \<open>a\<close>.\<close>

definition carePoint :: "int \<Rightarrow> Sex \<Rightarrow> CareNeedsProbability" where
  "carePoint a sex =
     (case careShares a sex of (indep, light, moderate, full) \<Rightarrow>
        (let tot = indep + light + moderate + full in
         \<lparr>age = a,
          independentLiving = of_int (Math_round (indep / tot * 1000)) / 10,
          lightAssistance = of_int (Math_round (light / tot * 1000)) / 10,
          moderateAssistance = of_int (Math_round (moderate / tot * 1000)) / 10,
          fullCare = of_int (Math_round (full / tot * 1000)) / 10\<rparr>))"

function careLoop :: "Sex \<Rightarrow> int \<Rightarrow> CareNeedsProbability list" where
  "careLoop sex a = (if a \<le> 100 then carePoint a sex # careLoop sex (a + 1) else [])"
  by pat_completeness auto
termination
  by (relation "measure (\<lambda>(sex, a). nat (101 - a))") auto

declare careLoop.simps [simp del]

definition computeCareNeedsCurve :: "real \<Rightarrow> Sex \<Rightarrow> CareNeedsProbability list" where
  "computeCareNeedsCurve startAge sex = careLoop sex \<lfloor>startAge\<rfloor>"

text \<open>
  A well-formed mortality table: not empty, every rate a probability.  Both tables of the
  module are.
\<close>

definition qxTable :: "(real \<times> real) list \<Rightarrow> bool" where
  "qxTable t \<longleftrightarrow> t \<noteq> [] \<and> (\<forall>(a, q) \<in> set t. 0 \<le> q \<and> q \<le> 1)"

text \<open>
  The trapezoidal sum without the accumulator, for reasoning about
  \<open>trapezoidLoop\<close>.
\<close>

fun trapezoid :: "SurvivalPoint list \<Rightarrow> real" where
  "trapezoid (p # q # rest) = (probability p + probability q) / 2 + trapezoid (q # rest)"
| "trapezoid _ = 0"

text \<open>The sum of the four reported percentages of a care-needs point.\<close>

definition careSum :: "CareNeedsProbability \<Rightarrow> real" where
  "careSum p = independentLiving p + lightAssistance p + moderateAssistance p + fullCare p"

text \<open>
  For the comparison of the two life expectancies.  \<open>curveSum sex a\<close> is the trapezoidal
  sum of the default survival curve from the integer age \<open>a\<close>; it is
  \<open>sumStep q v\<close>, with \<open>q\<close> the rate at \<open>a\<close> and \<open>v\<close> the sum from age \<open>a + 1\<close>.
  \<open>gapRun\<close> starts at an age \<open>a\<close> with a lower bound of the female sum and a lower and
  an upper bound of the male sum, and walks a list of (female, male) rates of the ages
  \<open>a - 1\<close>, \<open>a - 2\<close>, ..., with the bounds cut to six decimals; it stops with \<open>None\<close> if
  at an age of 102 or less the female lower bound is not at least 0.1 above the male upper
  bound.  \<open>ratesDown n a\<close> lists the rates of the
  two tables at the \<open>n\<close> ages \<open>a\<close>, \<open>a - 1\<close>, ...
\<close>

definition curveSum :: "Sex \<Rightarrow> int \<Rightarrow> real" where
  "curveSum sex a = trapezoid (survivalLoop (lifeTable sex) defaultMaxAge a 1)"

definition sumStep :: "real \<Rightarrow> real \<Rightarrow> real" where
  "sumStep q v = 1 - q / 2 + (1 - q) * v"

definition truncDown :: "real \<Rightarrow> real" where
  "truncDown x = of_int \<lfloor>x * 1000000\<rfloor> / 1000000"

definition truncUp :: "real \<Rightarrow> real" where
  "truncUp x = of_int \<lceil>x * 1000000\<rceil> / 1000000"

definition gapStep :: "real \<times> real \<Rightarrow> real \<times> real \<times> real \<Rightarrow> real \<times> real \<times> real" where
  "gapStep r s =
     (truncDown (sumStep (fst r) (fst s)), truncDown (sumStep (snd r) (fst (snd s))),
      truncUp (sumStep (snd r) (snd (snd s))))"

definition gapTest :: "int \<Rightarrow> real \<times> real \<times> real \<Rightarrow> bool" where
  "gapTest a s \<longleftrightarrow> 102 < a \<or> 1 / 10 \<le> fst s - snd (snd s)"

fun gapRun :: "(real \<times> real) list \<Rightarrow> int \<Rightarrow> real \<times> real \<times> real \<Rightarrow> (real \<times> real \<times> real) option" where
  "gapRun [] a s = (if gapTest a s then Some s else None)"
| "gapRun (r # rs) a s = (if gapTest a s then gapRun rs (a - 1) (gapStep r s) else None)"

definition ageRates :: "int \<Rightarrow> real \<times> real" where
  "ageRates a = (interpolateQx LIFE_TABLE_QX_FEMALE (of_int a), interpolateQx LIFE_TABLE_QX_MALE (of_int a))"

fun ratesDown :: "nat \<Rightarrow> int \<Rightarrow> (real \<times> real) list" where
  "ratesDown 0 a = []"
| "ratesDown (Suc n) a = ageRates a # ratesDown n (a - 1)"

text \<open>The three bounds of a state of \<open>gapRun\<close> hold at the age \<open>a\<close>.\<close>

definition gapBounds :: "int \<Rightarrow> real \<times> real \<times> real \<Rightarrow> bool" where
  "gapBounds a s \<longleftrightarrow>
     fst s \<le> curveSum Female a \<and> fst (snd s) \<le> curveSum Male a \<and> curveSum Male a \<le> snd (snd s)"

section \<open>Timeline engine: coordinate conversion (src/engine/timeline-engine.ts)\<close>





section \<open>Scenario diff engine (src/engine/scenario-engine.ts, src/engine/stress-engine.ts)\<close>

record MonthlyProjection =
  month :: string
  totalIncome :: real
  totalExpenses :: real
  netCashflow :: real
  netWorth :: real
  netWorthLow :: real
  netWorthHigh :: real

record StressScore =
  month :: string
  composite :: real
  freeTime :: real
  financialSurplus :: real
  overlapCount :: real
  caregivingLoad :: real
  sleepProxy :: real
  emotionalLoad :: real

text \<open>
  The \<open>{a, b, delta}\<close> and \<open>{a, b}\<close> objects of a \<open>ScenarioDiff\<close>; the fields \<open>a\<close>
  and \<open>b\<close> are called \<open>side_a\<close> and \<open>side_b\<close> here.
\<close>

record NumberDiff =
  side_a :: real
  side_b :: real
  delta :: real

record LabelDiff =
  label_a :: string
  label_b :: string

record ScenarioDiff =
  netWorthAtRetirement :: NumberDiff
  peakStress :: NumberDiff
  worstMonth :: LabelDiff
  redZoneMonths :: NumberDiff
  freeTimeMinimum :: NumberDiff

text \<open>\<open>Array.prototype.reduce\<close> without an initial value, on a list that is not empty.\<close>

definition reduce1 :: "('a \<Rightarrow> 'a \<Rightarrow> 'a) \<Rightarrow> 'a list \<Rightarrow> 'a" where
  "reduce1 f xs = foldl f (hd xs) (tl xs)"

definition getPeakStress :: "StressScore list \<Rightarrow> StressScore option" where
  "getPeakStress scores =
     (if scores = [] then None
      else Some (reduce1 (\<lambda>peak s. if composite peak < composite s then s else peak) scores))"

definition getRedZoneMonths :: "StressScore list \<Rightarrow> real \<Rightarrow> nat" where
  "getRedZoneMonths scores threshold = length (filter (\<lambda>s. threshold \<le> composite s) scores)"

definition defaultThreshold :: real where
  "defaultThreshold = 70"

definition getMinimumFreeTime :: "StressScore list \<Rightarrow> real" where
  "getMinimumFreeTime scores =
     (if scores = [] then 100 else reduce1 min (map (\<lambda>s. 100 - freeTime s) scores))"

text \<open>\<open>xs.find(p)?.netWorth ?? 0\<close>: the net worth of the first match, 0 without one.\<close>

definition netWorthAtOr0 :: "MonthlyProjection list \<Rightarrow> string \<Rightarrow> real" where
  "netWorthAtOr0 projections monthStr =
     (case find (\<lambda>p. MonthlyProjection.month p = monthStr) projections of
        None \<Rightarrow> 0 | Some p \<Rightarrow> netWorth p)"

definition worstProjection :: "MonthlyProjection list \<Rightarrow> MonthlyProjection option" where
  "worstProjection projections =
     (if projections \<noteq> []
      then Some (reduce1 (\<lambda>w p. if netCashflow p < netCashflow w then p else w) projections)
      else None)"

definition computeScenarioDiff ::
  "MonthlyProjection list \<Rightarrow> MonthlyProjection list \<Rightarrow> StressScore list \<Rightarrow> StressScore list
     \<Rightarrow> string \<Rightarrow> ScenarioDiff" where
  "computeScenarioDiff aProjections bProjections aStress bStress retirementMonth =
     (let aRetirement = netWorthAtOr0 aProjections retirementMonth;
          bRetirement = netWorthAtOr0 bProjections retirementMonth;
          aPeak = (case getPeakStress aStress of None \<Rightarrow> 0 | Some s \<Rightarrow> composite s);
          bPeak = (case getPeakStress bStress of None \<Rightarrow> 0 | Some s \<Rightarrow> composite s);
          aWorst = worstProjection aProjections;
          bWorst = worstProjection bProjections;
          aRedZone = real (getRedZoneMonths aStress defaultThreshold);
          bRedZone = real (getRedZoneMonths bStress defaultThreshold);
          aFreeMin = getMinimumFreeTime aStress;
          bFreeMin = getMinimumFreeTime bStress
      in \<lparr>netWorthAtRetirement =
            \<lparr>side_a = aRetirement, side_b = bRetirement, delta = bRetirement - aRetirement\<rparr>,
          peakStress = \<lparr>side_a = aPeak, side_b = bPeak, delta = bPeak - aPeak\<rparr>,
          worstMonth =
            \<lparr>label_a = (case aWorst of None \<Rightarrow> [] | Some p \<Rightarrow> MonthlyProjection.month p),
             label_b = (case bWorst of None \<Rightarrow> [] | Some p \<Rightarrow> MonthlyProjection.month p)\<rparr>,
          redZoneMonths = \<lparr>side_a = aRedZone, side_b = bRedZone, delta = bRedZone - aRedZone\<rparr>,
          freeTimeMinimum = \<lparr>side_a = aFreeMin, side_b = bFreeMin, delta = bFreeMin - aFreeMin\<rparr>\<rparr>)"

text \<open>A projection record for examples: month label and net worth given, cashflow 1000.\<close>

definition exampleProjection :: "string \<Rightarrow> real \<Rightarrow> MonthlyProjection" where
  "exampleProjection m w =
     \<lparr>MonthlyProjection.month = m, totalIncome = 1000, totalExpenses = 0, netCashflow = 1000,
      netWorth = w, netWorthLow = w - 5000, netWorthHigh = w + 5000\<rparr>"

section \<open>Calendar dates\<close>

text \<open>
  The financial and the debt engine use a \<open>Date\<close> through \<open>parseISO\<close>, \<open>addMonths\<close>,
  \<open>format\<close>, \<open>isBefore\<close> and \<open>isAfter\<close> of the date-fns library.  These are not code of
  the repository; they are modelled from the library's documentation on calendar dates
  (year, month 1..12, day of the month), the result of \<open>parseISO\<close> on a date-only
  string: \<open>addMonths\<close> keeps the day of the month unless the target month is shorter,
  \<open>format(d, 'yyyy-MM')\<close> prints the year on four digits and the month on two,
  \<open>isBefore\<close> and \<open>isAfter\<close> compare chronologically.
\<close>

record Date =
  d_year :: int
  d_month :: nat
  d_day :: nat

definition isBefore :: "Date \<Rightarrow> Date \<Rightarrow> bool" where
  "isBefore x y \<longleftrightarrow>
     d_year x < d_year y \<or>
     (d_year x = d_year y \<and>
       (d_month x < d_month y \<or> (d_month x = d_month y \<and> d_day x < d_day y)))"


definition daysInMonth :: "int \<Rightarrow> nat \<Rightarrow> nat" where
  "daysInMonth y m =
     (if m = 2 then (if (y mod 4 = 0 \<and> y mod 100 \<noteq> 0) \<or> y mod 400 = 0 then 29 else 28)
      else if m = 4 \<or> m = 6 \<or> m = 9 \<or> m = 11 then 30 else 31)"

definition addMonths :: "Date \<Rightarrow> nat \<Rightarrow> Date" where
  "addMonths d n =
     (let total = d_year d * 12 + (int (d_month d) - 1) + int n;
          y = total div 12;
          m = nat (total mod 12) + 1
      in \<lparr>d_year = y, d_month = m, d_day = min (d_day d) (daysInMonth y m)\<rparr>)"

definition digitChar :: "nat \<Rightarrow> char" where
  "digitChar n = ''0123456789'' ! (n mod 10)"

definition format_yyyy_MM :: "Date \<Rightarrow> string" where
  "format_yyyy_MM d =
     (let y = nat (d_year d); m = d_month d
      in [digitChar (y div 1000), digitChar (y div 100), digitChar (y div 10), digitChar y,
          CHR ''-'', digitChar (m div 10), digitChar m])"

section \<open>Financial projection engine (src/engine/financial-engine.ts)\<close>


record Account =
  accountType :: string
  balance :: real
  interestRate :: real

record IncomeStream =
  monthlyAmount :: real
  startDate :: Date
  endDate :: Date
  annualGrowthRate :: real

record ExpenseRule =
  monthlyAmount :: real
  startDate :: Date
  endDate :: Date
  annualInflationRate :: real

record FinancialInput =
  accounts :: "Account list"
  incomeStreams :: "IncomeStream list"
  expenseRules :: "ExpenseRule list"
  startDate :: Date
  months :: int














section \<open>Debt payoff engine (src/engine/debt-engine.ts)\<close>

datatype DebtStrategy = MinimumPayment | FixedPayment | Snowball | Avalanche

text \<open>
  A debt plan as the engine reads it; \<open>startDate\<close> is the date \<open>parseISO\<close> gives.  The
  field \<open>id\<close> of the source is called \<open>ident\<close> in all records here.
\<close>

record DebtPlan =
  ident :: string
  name :: string
  principalBalance :: real
  annualInterestRate :: real
  minimumPayment :: real
  monthlyPayment :: real
  extraPayment :: real
  strategy :: DebtStrategy
  startDate :: Date

record DebtPayoffMonth =
  month :: string
  debtId :: string
  debtName :: string
  startingBalance :: real
  payment :: real
  interestCharged :: real
  principalPaid :: real
  endingBalance :: real
  isPaidOff :: bool

record DebtPayoffSummary =
  debtId :: string
  debtName :: string
  originalBalance :: real
  totalInterestPaid :: real
  totalPaid :: real
  monthsToPayoff :: nat
  payoffDate :: string

record DebtPayoffResult =
  schedule :: "DebtPayoffMonth list"
  summaries :: "DebtPayoffSummary list"
  totalInterestPaid :: real
  totalPaid :: real
  lastPayoffDate :: string

text \<open>The working state the engine keeps per debt (the objects of the array \<open>debts\<close>).\<close>

record Debt =
  ident :: string
  name :: string
  balance :: real
  originalBalance :: real
  rate :: real
  minimum :: real
  monthlyPayment :: real
  extra :: real
  strategy :: DebtStrategy
  startDate :: Date
  totalInterest :: real
  totalPaid :: real
  paidOff :: bool
  payoffMonth :: string
  monthsToPayoff :: nat

text \<open>
  The engine mutates the objects of \<open>debts\<close> and the entries of \<open>schedule\<close> in place, and
  \<open>activeDebts\<close> and \<open>sorted\<close> hold references to the same objects.  Here the state is the
  pair of the two arrays, a debt is referred to by its index in \<open>debts\<close>, and
  \<open>activeDebts\<close> and \<open>sorted\<close> are lists of indices.
\<close>

type_synonym PayoffState = "Debt list \<times> DebtPayoffMonth list"

definition round2 :: "real \<Rightarrow> real" where
  "round2 x = of_int (Math_round (x * 100)) / 100"

definition initDebt :: "DebtPlan \<Rightarrow> Debt" where
  "initDebt d =
     \<lparr>ident = DebtPlan.ident d, name = DebtPlan.name d, balance = principalBalance d,
      Debt.originalBalance = principalBalance d, rate = annualInterestRate d / 100 / 12,
      minimum = minimumPayment d, monthlyPayment = DebtPlan.monthlyPayment d,
      extra = extraPayment d, strategy = DebtPlan.strategy d, startDate = DebtPlan.startDate d,
      totalInterest = 0, totalPaid = 0, paidOff = False, payoffMonth = [],
      Debt.monthsToPayoff = 0\<rparr>"

definition isPooled :: "Debt list \<Rightarrow> bool" where
  "isPooled debts = list_ex (\<lambda>d. strategy d = Snowball \<or> strategy d = Avalanche) debts"

definition totalExtraBudget :: "Debt list \<Rightarrow> real" where
  "totalExtraBudget debts = (if isPooled debts then foldl (\<lambda>s d. s + extra d) 0 debts else 0)"

definition earliestStart :: "Debt list \<Rightarrow> Date" where
  "earliestStart debts =
     foldl (\<lambda>mn d. if isBefore (startDate d) mn then startDate d else mn)
       (startDate (hd debts)) debts"

definition activeDebts :: "Debt list \<Rightarrow> Date \<Rightarrow> nat list" where
  "activeDebts debts currentDate =
     filter (\<lambda>i. \<not> paidOff (debts ! i) \<and> \<not> isBefore currentDate (startDate (debts ! i)))
       [0..<length debts]"

text \<open>Step 1, for one active debt: charge the month's interest.\<close>

definition chargeInterest :: "nat \<Rightarrow> Debt list \<Rightarrow> Debt list" where
  "chargeInterest i debts =
     (let debt = debts ! i; interest = balance debt * rate debt
      in debts[i := debt\<lparr>balance := balance debt + interest,
                          totalInterest := totalInterest debt + interest\<rparr>])"

text \<open>Step 2, for one active debt: pay the minimum and push the schedule entry.\<close>

definition payMinimum :: "string \<Rightarrow> nat \<Rightarrow> PayoffState \<Rightarrow> PayoffState" where
  "payMinimum monthStr i st =
     (case st of (debts, sched) \<Rightarrow>
        (let debt = debts ! i;
             pay = min (minimum debt) (balance debt);
             debt' = debt\<lparr>balance := balance debt - pay, totalPaid := totalPaid debt + pay\<rparr>;
             interest = (if 0 \<le> balance debt' then balance debt' * rate debt' / (1 + rate debt')
                         else 0)
         in (debts[i := debt'],
             sched @
             [\<lparr>DebtPayoffMonth.month = monthStr, DebtPayoffMonth.debtId = ident debt',
               DebtPayoffMonth.debtName = name debt',
               startingBalance = balance debt' + pay, payment = pay,
               interestCharged = round2 interest, principalPaid = round2 (pay - interest),
               endingBalance = round2 (balance debt'),
               isPaidOff = (balance debt' \<le> 0.01)\<rparr>])))"

text \<open>
  \<open>schedule.filter((e) => e.debtId === debt.id).pop()\<close>: the index of the last entry with
  that debt id, if there is one.
\<close>

definition lastEntryIndex :: "string \<Rightarrow> DebtPayoffMonth list \<Rightarrow> nat option" where
  "lastEntryIndex i sched =
     find (\<lambda>k. DebtPayoffMonth.debtId (sched ! k) = i) (rev [0..<length sched])"

text \<open>The update of \<open>lastEntry\<close> after an extra payment.\<close>

definition bumpLastEntry ::
  "string \<Rightarrow> real \<Rightarrow> real \<Rightarrow> DebtPayoffMonth list \<Rightarrow> DebtPayoffMonth list" where
  "bumpLastEntry i ex newBalance sched =
     (case lastEntryIndex i sched of
        None \<Rightarrow> sched
      | Some k \<Rightarrow>
          sched[k := (sched ! k)\<lparr>payment := payment (sched ! k) + ex,
                                  principalPaid := principalPaid (sched ! k) + ex,
                                  endingBalance := round2 newBalance,
                                  isPaidOff := (newBalance \<le> 0.01)\<rparr>])"

text \<open>An extra payment \<open>ex\<close> on debt \<open>i\<close>, with the update of its last schedule entry.\<close>

definition payExtra :: "nat \<Rightarrow> real \<Rightarrow> PayoffState \<Rightarrow> PayoffState" where
  "payExtra i ex st =
     (case st of (debts, sched) \<Rightarrow>
        (let debt = debts ! i;
             debt' = debt\<lparr>balance := balance debt - ex, totalPaid := totalPaid debt + ex\<rparr>
         in (debts[i := debt'], bumpLastEntry (ident debt') ex (balance debt') sched)))"

text \<open>
  Step 3, pooled: the array \<open>sorted\<close>.  \<open>Array.prototype.sort\<close> is stable, and so is
  \<open>sort_key\<close>; sorting by the comparator \<open>b.rate - a.rate\<close> is sorting by the negated rate.
\<close>

definition poolTargets :: "Debt list \<Rightarrow> nat list \<Rightarrow> nat list" where
  "poolTargets debts active =
     (let unpaid = filter (\<lambda>i. 0.01 < balance (debts ! i)) active
      in if strategy (debts ! 0) = Snowball
         then sort_key (\<lambda>i. balance (debts ! i)) unpaid
         else sort_key (\<lambda>i. - rate (debts ! i)) unpaid)"

definition paidOffMinimums :: "Debt list \<Rightarrow> real" where
  "paidOffMinimums debts = foldl (\<lambda>s d. s + minimum d) 0 (filter paidOff debts)"

text \<open>The loop over \<open>sorted\<close>, with the budget \<open>remaining\<close>.\<close>

fun allocateExtra :: "real \<Rightarrow> nat list \<Rightarrow> PayoffState \<Rightarrow> PayoffState" where
  "allocateExtra remaining [] st = st"
| "allocateExtra remaining (i # rest) st =
     (if remaining \<le> 0 then st
      else allocateExtra (remaining - min remaining (balance (fst st ! i))) rest
             (payExtra i (min remaining (balance (fst st ! i))) st))"

text \<open>Step 3, not pooled, for one active debt.\<close>

definition ownExtra :: "nat \<Rightarrow> PayoffState \<Rightarrow> PayoffState" where
  "ownExtra i st =
     (let debt = fst st ! i in
      if balance debt \<le> 0.01 then st
      else (let extraForThis = (if strategy debt = FixedPayment
                                then monthlyPayment debt - minimum debt else extra debt)
            in if extraForThis \<le> 0 then st
               else payExtra i (min extraForThis (balance debt)) st))"

text \<open>Step 3 as a whole; \<open>budget\<close> is \<open>totalExtraBudget\<close>.\<close>

definition applyExtras :: "bool \<Rightarrow> real \<Rightarrow> nat list \<Rightarrow> PayoffState \<Rightarrow> PayoffState" where
  "applyExtras pooled budget active st =
     (if pooled \<and> 0 < budget
      then allocateExtra (budget + paidOffMinimums (fst st)) (poolTargets (fst st) active) st
      else fold ownExtra active st)"

text \<open>Step 4, for one active debt.\<close>

definition markPaidOff :: "string \<Rightarrow> nat \<Rightarrow> nat \<Rightarrow> Debt list \<Rightarrow> Debt list" where
  "markPaidOff monthStr m i debts =
     (let debt = debts ! i in
      if balance debt \<le> 0.01 \<and> \<not> paidOff debt
      then debts[i := debt\<lparr>paidOff := True, balance := 0, payoffMonth := monthStr,
                            monthsToPayoff := m + 1\<rparr>]
      else debts)"

text \<open>One pass of the month loop, for the active debts \<open>active\<close>.\<close>

definition monthStep ::
  "bool \<Rightarrow> real \<Rightarrow> string \<Rightarrow> nat \<Rightarrow> nat list \<Rightarrow> PayoffState \<Rightarrow> PayoffState" where
  "monthStep pooled budget monthStr m active st =
     (let st1 = (fold chargeInterest active (fst st), snd st);
          st2 = fold (payMinimum monthStr) active st1;
          st3 = applyExtras pooled budget active st2
      in (fold (markPaidOff monthStr m) active (fst st3), snd st3))"

function payoffLoop ::
  "nat \<Rightarrow> Date \<Rightarrow> bool \<Rightarrow> real \<Rightarrow> nat \<Rightarrow> PayoffState \<Rightarrow> PayoffState" where
  "payoffLoop maxMonths earliest pooled budget m st =
     (if m < maxMonths
      then (if activeDebts (fst st) (addMonths earliest m) = [] then st
            else payoffLoop maxMonths earliest pooled budget (m + 1)
                   (monthStep pooled budget (format_yyyy_MM (addMonths earliest m)) m
                      (activeDebts (fst st) (addMonths earliest m)) st))
      else st)"
  by pat_completeness auto
termination
  by (relation "measure (\<lambda>(maxMonths, earliest, pooled, budget, m, st). maxMonths - m)") auto

declare payoffLoop.simps [simp del]

definition summaryOf :: "Debt \<Rightarrow> DebtPayoffSummary" where
  "summaryOf d =
     \<lparr>DebtPayoffSummary.debtId = ident d, DebtPayoffSummary.debtName = name d,
      DebtPayoffSummary.originalBalance = Debt.originalBalance d,
      DebtPayoffSummary.totalInterestPaid = round2 (totalInterest d),
      DebtPayoffSummary.totalPaid = round2 (Debt.totalPaid d),
      DebtPayoffSummary.monthsToPayoff = Debt.monthsToPayoff d, payoffDate = payoffMonth d\<rparr>"

text \<open>The state in which the month loop of \<open>computeDebtPayoff\<close> ends.\<close>

definition payoffRun :: "DebtPlan list \<Rightarrow> nat \<Rightarrow> PayoffState" where
  "payoffRun debtPlans maxMonths =
     (let debts = map initDebt debtPlans
      in payoffLoop maxMonths (earliestStart debts) (isPooled debts) (totalExtraBudget debts) 0
           (debts, []))"

definition computeDebtPayoff :: "DebtPlan list \<Rightarrow> nat \<Rightarrow> DebtPayoffResult" where
  "computeDebtPayoff debtPlans maxMonths =
     (if debtPlans = []
      then \<lparr>schedule = [], summaries = [], DebtPayoffResult.totalInterestPaid = 0,
            DebtPayoffResult.totalPaid = 0, lastPayoffDate = []\<rparr>
      else (let debts = fst (payoffRun debtPlans maxMonths);
                summaryList = map summaryOf debts
            in \<lparr>schedule = snd (payoffRun debtPlans maxMonths),
                summaries = summaryList,
                DebtPayoffResult.totalInterestPaid =
                  round2 (foldl (\<lambda>s d. s + totalInterest d) 0 debts),
                DebtPayoffResult.totalPaid = round2 (foldl (\<lambda>s d. s + Debt.totalPaid d) 0 debts),
                lastPayoffDate =
                  foldl (\<lambda>latest s. if latest < payoffDate s then payoffDate s else latest)
                    [] summaryList\<rparr>))"

definition defaultMaxMonths :: nat where
  "defaultMaxMonths = 600"

text \<open>Debt plans for examples: all start on 2024-01-01 and have no fixed monthly payment.\<close>

definition examplePlan ::
  "string \<Rightarrow> DebtStrategy \<Rightarrow> real \<Rightarrow> real \<Rightarrow> real \<Rightarrow> real \<Rightarrow> DebtPlan" where
  "examplePlan i s bal annualRate minPay extraPay =
     \<lparr>DebtPlan.ident = i, DebtPlan.name = i, principalBalance = bal,
      annualInterestRate = annualRate, minimumPayment = minPay, DebtPlan.monthlyPayment = 0,
      extraPayment = extraPay, DebtPlan.strategy = s,
      DebtPlan.startDate = \<lparr>d_year = 2024, d_month = 1, d_day = 1\<rparr>\<rparr>"



text \<open>
  Notions for the invariants of the month loop: a working array with no negative balance,
  rate or minimum payment; the cumulative totals of every debt growing from one array to
  another; debt plans with no negative principal, rate or minimum payment; the last schedule
  entry that carries a debt id.
\<close>

definition debtsSane :: "Debt list \<Rightarrow> bool" where
  "debtsSane ds \<longleftrightarrow> (\<forall>d \<in> set ds. 0 \<le> balance d \<and> 0 \<le> rate d \<and> 0 \<le> minimum d)"

definition totalsGrow :: "Debt list \<Rightarrow> Debt list \<Rightarrow> bool" where
  "totalsGrow ds ds' \<longleftrightarrow>
     length ds' = length ds \<and>
     (\<forall>i < length ds. totalInterest (ds ! i) \<le> totalInterest (ds' ! i) \<and>
                       totalPaid (ds ! i) \<le> totalPaid (ds' ! i))"

definition plansSane :: "DebtPlan list \<Rightarrow> bool" where
  "plansSane ps \<longleftrightarrow>
     (\<forall>p \<in> set ps. 0 \<le> principalBalance p \<and> 0 \<le> annualInterestRate p \<and> 0 \<le> minimumPayment p)"

definition lastEntry :: "string \<Rightarrow> DebtPayoffMonth list \<Rightarrow> DebtPayoffMonth option" where
  "lastEntry i sched = map_option (\<lambda>k. sched ! k) (lastEntryIndex i sched)"

text \<open>A step from one working array to another keeps it sane and lets the totals grow.\<close>

definition grows :: "Debt list \<Rightarrow> Debt list \<Rightarrow> bool" where
  "grows ds ds' \<longleftrightarrow> (debtsSane ds \<longrightarrow> debtsSane ds' \<and> totalsGrow ds ds')"

text \<open>
  A schedule entry in step with a debt in month \<open>monthStr\<close>; a step that leaves debt \<open>i\<close>
  and the last entry of its id alone; a state in which debt \<open>i\<close> has its entry of the month
  in step; a state in which every paid-off debt has balance 0 and a last entry that is of
  its payoff month, flagged paid off, with an ending balance between 0 and 0.01.
\<close>

definition entrySync :: "string \<Rightarrow> Debt \<Rightarrow> DebtPayoffMonth \<Rightarrow> bool" where
  "entrySync monthStr d e \<longleftrightarrow>
     DebtPayoffMonth.month e = monthStr \<and> endingBalance e = round2 (balance d) \<and>
     isPaidOff e = (balance d \<le> 0.01)"

definition frame :: "nat \<Rightarrow> PayoffState \<Rightarrow> PayoffState \<Rightarrow> bool" where
  "frame i st st' \<longleftrightarrow>
     map ident (fst st') = map ident (fst st) \<and> map paidOff (fst st') = map paidOff (fst st) \<and>
     fst st' ! i = fst st ! i \<and>
     lastEntry (ident (fst st ! i)) (snd st') = lastEntry (ident (fst st ! i)) (snd st)"

definition sync :: "string \<Rightarrow> nat \<Rightarrow> PayoffState \<Rightarrow> bool" where
  "sync monthStr i st \<longleftrightarrow>
     (\<exists>e. lastEntry (ident (fst st ! i)) (snd st) = Some e \<and> entrySync monthStr (fst st ! i) e)"

definition settled :: "PayoffState \<Rightarrow> bool" where
  "settled st \<longleftrightarrow>
     (\<forall>i < length (fst st). paidOff (fst st ! i) \<longrightarrow>
        balance (fst st ! i) = 0 \<and>
        (\<exists>e. lastEntry (ident (fst st ! i)) (snd st) = Some e \<and>
             DebtPayoffMonth.month e = payoffMonth (fst st ! i) \<and> isPaidOff e \<and>
             0 \<le> endingBalance e \<and> endingBalance e \<le> 0.01))"

text \<open>
  Two more plans for examples: a debt of 100 + 1/128 without interest and a minimum payment
  of 100, and a debt of 1000 with a negative rate of -12% a year.
\<close>

definition residuePlan :: DebtPlan where
  "residuePlan = examplePlan ''car'' MinimumPayment (12801 / 128) 0 100 0"

definition negativeRatePlan :: DebtPlan where
  "negativeRatePlan = examplePlan ''odd'' MinimumPayment 1000 (- 12) 10 0"

section \<open>Properties of the longevity engine\<close>

subsection \<open>Rounding\<close>

lemma Math_round_mono: "x \<le> y \<Longrightarrow> Math_round x \<le> Math_round y"
  by (simp add: Math_round_def floor_mono)

lemma Math_round_less: "x + 1 \<le> y \<Longrightarrow> Math_round x < Math_round y"
proof -
  assume "x + 1 \<le> y"
  then have "\<lfloor>x + 1 / 2 + 1\<rfloor> \<le> \<lfloor>y + 1 / 2\<rfloor>" by (intro floor_mono) simp
  moreover have "\<lfloor>x + 1 / 2 + 1\<rfloor> = \<lfloor>x + 1 / 2\<rfloor> + 1" by linarith
  ultimately show ?thesis unfolding Math_round_def by linarith
qed

subsection \<open>Mortality rates and the survival curve\<close>

lemma blend_between:
  fixes q0 q1 :: real
  assumes "a0 \<le> x" "x < a1" "lo \<le> q0" "q0 \<le> hi" "lo \<le> q1" "q1 \<le> hi"
  shows "lo \<le> q0 + (x - a0) / (a1 - a0) * (q1 - q0) \<and> q0 + (x - a0) / (a1 - a0) * (q1 - q0) \<le> hi"
proof -
  define t where "t = (x - a0) / (a1 - a0)"
  have t: "0 \<le> t" "t \<le> 1" using assms by (simp_all add: t_def)
  have eq: "q0 + t * (q1 - q0) = (1 - t) * q0 + t * q1" by (simp add: algebra_simps)
  have "lo = (1 - t) * lo + t * lo" by (simp add: algebra_simps)
  also have "\<dots> \<le> (1 - t) * q0 + t * q1"
    using t assms by (intro add_mono mult_left_mono) simp_all
  finally have 1: "lo \<le> q0 + t * (q1 - q0)" by (simp add: eq)
  have "(1 - t) * q0 + t * q1 \<le> (1 - t) * hi + t * hi"
    using t assms by (intro add_mono mult_left_mono) simp_all
  also have "\<dots> = hi" by (simp add: algebra_simps)
  finally have 2: "q0 + t * (q1 - q0) \<le> hi" by (simp add: eq)
  show ?thesis using 1 2 by (simp add: t_def)
qed

lemma qxScan_range:
  "\<forall>(a, q) \<in> set t. lo \<le> q \<and> q \<le> hi \<Longrightarrow> qxScan t x = Some r \<Longrightarrow> lo \<le> r \<and> r \<le> hi"
proof (induction t x rule: qxScan.induct)
  case (1 a0 q0 a1 q1 rest x)
  show ?case
  proof (cases "a0 \<le> x \<and> x < a1")
    case True
    then have "r = q0 + (x - a0) / (a1 - a0) * (q1 - q0)" using "1.prems"(2) by simp
    moreover have "lo \<le> q0" "q0 \<le> hi" "lo \<le> q1" "q1 \<le> hi" using "1.prems"(1) by auto
    ultimately show ?thesis using blend_between[of a0 x a1 lo q0 hi q1] True by simp
  next
    case False
    then have "qxScan ((a1, q1) # rest) x = Some r" using "1.prems"(2) by (auto split: if_splits)
    moreover have "\<forall>(a, q) \<in> set ((a1, q1) # rest). lo \<le> q \<and> q \<le> hi" using "1.prems"(1) by simp
    ultimately show ?thesis using "1.IH" False by blast
  qed
qed simp_all

lemma interpolateQx_range:
  assumes "qxTable t"
  shows "0 \<le> interpolateQx t x \<and> interpolateQx t x \<le> 1"
proof -
  have ne: "t \<noteq> []" and all: "\<forall>(a, q) \<in> set t. 0 \<le> q \<and> q \<le> 1"
    using assms by (simp_all add: qxTable_def)
  have h: "0 \<le> snd (hd t) \<and> snd (hd t) \<le> 1"
    using all hd_in_set[OF ne] by (auto simp: case_prod_beta)
  have l: "0 \<le> snd (last t) \<and> snd (last t) \<le> 1"
    using all last_in_set[OF ne] by (auto simp: case_prod_beta)
  show ?thesis
    using h l qxScan_range[OF all, of x]
    by (auto simp: interpolateQx_def split: option.splits)
qed

lemma qxTable_lifeTable: "qxTable (lifeTable sex)"
  by (cases sex) (simp_all add: qxTable_def lifeTable_def LIFE_TABLE_QX_MALE_def LIFE_TABLE_QX_FEMALE_def)



lemma survivalLoop_unfold:
  "of_int a \<le> maxAge \<Longrightarrow>
   survivalLoop t maxAge a s =
     \<lparr>SurvivalPoint.age = a, probability = s\<rparr> #
     survivalLoop t maxAge (a + 1) (s * (1 - interpolateQx t (of_int a)))"
  by (subst survivalLoop.simps) simp

lemma survivalLoop_empty: "\<not> of_int a \<le> maxAge \<Longrightarrow> survivalLoop t maxAge a s = []"
  by (subst survivalLoop.simps) simp

lemma survivalLoop_step_le:
  assumes "qxTable t" "0 \<le> s"
  shows "0 \<le> s * (1 - interpolateQx t x)" "s * (1 - interpolateQx t x) \<le> s"
  using interpolateQx_range[OF assms(1), of x] assms(2) by (simp_all add: mult_left_le)


lemma survivalLoop_ages:
  "p \<in> set (survivalLoop t maxAge a s) \<Longrightarrow> a \<le> SurvivalPoint.age p \<and> of_int (SurvivalPoint.age p) \<le> maxAge"
proof (induction t maxAge a s rule: survivalLoop.induct)
  case (1 table maxAge a survival)
  show ?case
  proof (cases "of_int a \<le> maxAge")
    case True
    then show ?thesis using "1.prems" "1.IH"[OF True] by (auto simp: survivalLoop_unfold[OF True])
  next
    case False
    then show ?thesis using "1.prems" by (simp add: survivalLoop_empty)
  qed
qed

lemma survivalLoop_last_age:
  "of_int a \<le> maxAge \<Longrightarrow> SurvivalPoint.age (last (survivalLoop t maxAge a s)) = \<lfloor>maxAge\<rfloor>"
proof (induction t maxAge a s rule: survivalLoop.induct)
  case (1 table maxAge a survival)
  show ?case
  proof (cases "of_int (a + 1) \<le> maxAge")
    case True
    then have ne: "survivalLoop table maxAge (a + 1) (survival * (1 - interpolateQx table (of_int a))) \<noteq> []"
      by (subst survivalLoop.simps) simp
    show ?thesis using "1.IH"[OF "1.prems" True] ne by (simp add: survivalLoop_unfold[OF "1.prems"])
  next
    case False
    then have "survivalLoop table maxAge (a + 1) (survival * (1 - interpolateQx table (of_int a))) = []"
      by (rule survivalLoop_empty)
    moreover have "\<lfloor>maxAge\<rfloor> = a" using False "1.prems" by (simp add: floor_unique)
    ultimately show ?thesis by (simp add: survivalLoop_unfold[OF "1.prems"])
  qed
qed







subsection \<open>Life expectancy\<close>

lemma trapezoidLoop_acc: "trapezoidLoop acc ps = acc + trapezoid ps"
  by (induction acc ps rule: trapezoidLoop.induct) simp_all

lemma trapezoid_survivalLoop_step:
  assumes "of_int a + 1 \<le> maxAge"
  shows "trapezoid (survivalLoop t maxAge a s) =
         (s + s * (1 - interpolateQx t (of_int a))) / 2 +
         trapezoid (survivalLoop t maxAge (a + 1) (s * (1 - interpolateQx t (of_int a))))"
proof -
  have 1: "of_int a \<le> maxAge" and 2: "of_int (a + 1) \<le> maxAge" using assms by simp_all
  show ?thesis
    by (subst survivalLoop_unfold[OF 1], subst (1 2) survivalLoop_unfold[OF 2]) simp
qed

lemma trapezoid_survivalLoop_stop:
  assumes "\<not> of_int a + 1 \<le> maxAge"
  shows "trapezoid (survivalLoop t maxAge a s) = 0"
proof (cases "of_int a \<le> maxAge")
  case True
  have "survivalLoop t maxAge (a + 1) s' = []" for s'
    using assms by (intro survivalLoop_empty) simp
  then show ?thesis by (simp add: survivalLoop_unfold[OF True])
next
  case False
  then show ?thesis by (simp add: survivalLoop_empty)
qed

lemma trapezoid_survivalLoop_scale:
  "trapezoid (survivalLoop t maxAge a s) = s * trapezoid (survivalLoop t maxAge a 1)"
proof (induction "nat (\<lfloor>maxAge\<rfloor> - a)" arbitrary: a s)
  case 0
  then have "\<not> of_int a + 1 \<le> maxAge" by (simp add: le_floor_iff) linarith
  then show ?case by (simp add: trapezoid_survivalLoop_stop)
next
  case (Suc n)
  then have le: "of_int a + 1 \<le> maxAge" and n: "n = nat (\<lfloor>maxAge\<rfloor> - (a + 1))"
    by (simp_all add: le_floor_iff) linarith+
  define q where "q = interpolateQx t (of_int a)"
  define T1 where "T1 = trapezoid (survivalLoop t maxAge (a + 1) 1)"
  have A: "trapezoid (survivalLoop t maxAge a s) =
        (s + s * (1 - q)) / 2 + trapezoid (survivalLoop t maxAge (a + 1) (s * (1 - q)))"
    unfolding q_def by (rule trapezoid_survivalLoop_step[OF le])
  have B: "trapezoid (survivalLoop t maxAge a 1) =
        (1 + (1 - q)) / 2 + trapezoid (survivalLoop t maxAge (a + 1) (1 - q))"
    unfolding q_def using trapezoid_survivalLoop_step[OF le, of t 1] by simp
  have C: "trapezoid (survivalLoop t maxAge (a + 1) (s * (1 - q))) = s * (1 - q) * T1"
    unfolding T1_def using Suc.hyps(1)[OF n] .
  have D: "trapezoid (survivalLoop t maxAge (a + 1) (1 - q)) = (1 - q) * T1"
    unfolding T1_def using Suc.hyps(1)[OF n] .
  show ?case unfolding A B C D by (simp add: algebra_simps)
qed

lemma trapezoid_survivalLoop_rec:
  assumes "of_int a + 1 \<le> maxAge"
  shows "trapezoid (survivalLoop t maxAge a 1) =
         1 - interpolateQx t (of_int a) / 2 +
         (1 - interpolateQx t (of_int a)) * trapezoid (survivalLoop t maxAge (a + 1) 1)"
proof -
  let ?q = "interpolateQx t (of_int a)"
  have "trapezoid (survivalLoop t maxAge a 1) =
        (1 + (1 - ?q)) / 2 + trapezoid (survivalLoop t maxAge (a + 1) (1 - ?q))"
    using trapezoid_survivalLoop_step[OF assms, of t 1] by simp
  also have "trapezoid (survivalLoop t maxAge (a + 1) (1 - ?q)) =
        (1 - ?q) * trapezoid (survivalLoop t maxAge (a + 1) 1)"
    by (rule trapezoid_survivalLoop_scale)
  also have "(1 + (1 - ?q)) / 2 = 1 - ?q / 2" by (simp add: field_simps)
  finally show ?thesis .
qed

lemma trapezoid_survivalLoop_nonneg:
  "qxTable t \<Longrightarrow> 0 \<le> trapezoid (survivalLoop t maxAge a 1)"
proof (induction "nat (\<lfloor>maxAge\<rfloor> - a)" arbitrary: a)
  case 0
  then have "\<not> of_int a + 1 \<le> maxAge" by (simp add: le_floor_iff) linarith
  then show ?case by (simp add: trapezoid_survivalLoop_stop)
next
  case (Suc n)
  then have le: "of_int a + 1 \<le> maxAge" and n: "n = nat (\<lfloor>maxAge\<rfloor> - (a + 1))"
    by (simp_all add: le_floor_iff) linarith+
  note q = interpolateQx_range[OF Suc.prems, of "of_int a"]
  have "0 \<le> (1 - interpolateQx t (of_int a)) * trapezoid (survivalLoop t maxAge (a + 1) 1)"
    using q Suc.hyps(1)[OF n Suc.prems] by simp
  then show ?case using q by (simp add: trapezoid_survivalLoop_rec[OF le])
qed

lemma qxScan_mono:
  "list_all2 (\<lambda>r1 r2. fst r1 = fst r2 \<and> snd r1 \<le> snd r2) t1 t2 \<Longrightarrow>
   rel_option (\<le>) (qxScan t1 x) (qxScan t2 x)"
proof (induction t1 x arbitrary: t2 rule: qxScan.induct)
  case (1 a0 q0 a1 q1 rest x)
  from "1.prems" obtain q0' q1' rest' where t2: "t2 = (a0, q0') # (a1, q1') # rest'"
    and q: "q0 \<le> q0'" "q1 \<le> q1'"
    and rest: "list_all2 (\<lambda>r1 r2. fst r1 = fst r2 \<and> snd r1 \<le> snd r2) ((a1, q1) # rest) ((a1, q1') # rest')"
    by (auto simp: list_all2_Cons1)
  show ?case
  proof (cases "a0 \<le> x \<and> x < a1")
    case True
    define u where "u = (x - a0) / (a1 - a0)"
    have u: "0 \<le> u" "u \<le> 1" using True by (simp_all add: u_def)
    have "(1 - u) * q0 + u * q1 \<le> (1 - u) * q0' + u * q1'"
      using u q by (intro add_mono mult_left_mono) simp_all
    then have "q0 + u * (q1 - q0) \<le> q0' + u * (q1' - q0')" by (simp add: algebra_simps)
    then show ?thesis using True by (simp add: t2 u_def)
  next
    case False
    then show ?thesis using "1.IH"[OF False rest] by (auto simp: t2)
  qed
qed (auto simp: list_all2_Cons1)

lemma interpolateQx_female_le_male:
  "interpolateQx LIFE_TABLE_QX_FEMALE x \<le> interpolateQx LIFE_TABLE_QX_MALE x"
proof -
  have rel: "list_all2 (\<lambda>r1 r2. fst r1 = fst r2 \<and> snd r1 \<le> snd r2) LIFE_TABLE_QX_FEMALE LIFE_TABLE_QX_MALE"
    by (simp add: LIFE_TABLE_QX_FEMALE_def LIFE_TABLE_QX_MALE_def)
  have hl: "fst (hd LIFE_TABLE_QX_FEMALE) = fst (hd LIFE_TABLE_QX_MALE)"
    "fst (last LIFE_TABLE_QX_FEMALE) = fst (last LIFE_TABLE_QX_MALE)"
    "snd (hd LIFE_TABLE_QX_FEMALE) \<le> snd (hd LIFE_TABLE_QX_MALE)"
    "snd (last LIFE_TABLE_QX_FEMALE) \<le> snd (last LIFE_TABLE_QX_MALE)"
    by (simp_all add: LIFE_TABLE_QX_FEMALE_def LIFE_TABLE_QX_MALE_def)
  show ?thesis
    using qxScan_mono[OF rel, of x] hl
    by (auto simp: interpolateQx_def split: option.splits)
qed

lemma trapezoid_female_ge_male:
  "trapezoid (survivalLoop LIFE_TABLE_QX_MALE maxAge a 1)
     \<le> trapezoid (survivalLoop LIFE_TABLE_QX_FEMALE maxAge a 1)"
proof (induction "nat (\<lfloor>maxAge\<rfloor> - a)" arbitrary: a)
  case 0
  then have "\<not> of_int a + 1 \<le> maxAge" by (simp add: le_floor_iff) linarith
  then show ?case by (simp add: trapezoid_survivalLoop_stop)
next
  case (Suc n)
  then have le: "of_int a + 1 \<le> maxAge" and n: "n = nat (\<lfloor>maxAge\<rfloor> - (a + 1))"
    by (simp_all add: le_floor_iff) linarith+
  have tm: "qxTable LIFE_TABLE_QX_MALE" and tf: "qxTable LIFE_TABLE_QX_FEMALE"
    using qxTable_lifeTable[of Male] qxTable_lifeTable[of Female] by (simp_all add: lifeTable_def)
  let ?qm = "interpolateQx LIFE_TABLE_QX_MALE (of_int a)"
  let ?qf = "interpolateQx LIFE_TABLE_QX_FEMALE (of_int a)"
  let ?Sm = "trapezoid (survivalLoop LIFE_TABLE_QX_MALE maxAge (a + 1) 1)"
  let ?Sf = "trapezoid (survivalLoop LIFE_TABLE_QX_FEMALE maxAge (a + 1) 1)"
  have q: "?qf \<le> ?qm" by (rule interpolateQx_female_le_male)
  have qm: "0 \<le> ?qm" "?qm \<le> 1" using interpolateQx_range[OF tm] by simp_all
  have qf: "0 \<le> ?qf" "?qf \<le> 1" using interpolateQx_range[OF tf] by simp_all
  have S: "?Sm \<le> ?Sf" using Suc.hyps(1)[OF n] .
  have Sm: "0 \<le> ?Sm" by (rule trapezoid_survivalLoop_nonneg[OF tm])
  have "(1 - ?qm) * ?Sm \<le> (1 - ?qf) * ?Sf"
    using q qm qf S Sm by (intro mult_mono) simp_all
  then show ?case
    using q by (simp add: trapezoid_survivalLoop_rec[OF le])
qed

subsection \<open>The gap between the two trapezoidal sums\<close>

text \<open>
  The sum from an age up to 109 is one \<open>sumStep\<close> away from the sum of the next age; a
  step of \<open>gapRun\<close> keeps the bounds, so a run that returns has checked the gap at every
  age it passed.
\<close>

lemma curveSum_rec:
  assumes "a \<le> 109"
  shows "curveSum sex a =
         sumStep (interpolateQx (lifeTable sex) (of_int a)) (curveSum sex (a + 1))"
proof -
  have "of_int a + 1 \<le> defaultMaxAge" using assms by (simp add: defaultMaxAge_def)
  then show ?thesis unfolding curveSum_def sumStep_def by (rule trapezoid_survivalLoop_rec)
qed

lemma curveSum_110: "curveSum sex 110 = 0"
  unfolding curveSum_def by (rule trapezoid_survivalLoop_stop) (simp add: defaultMaxAge_def)

lemma curveSum_step:
  assumes "a \<le> 109"
  shows "curveSum Female a = sumStep (fst (ageRates a)) (curveSum Female (a + 1))"
    and "curveSum Male a = sumStep (snd (ageRates a)) (curveSum Male (a + 1))"
  using curveSum_rec[OF assms, of Female] curveSum_rec[OF assms, of Male]
  by (simp_all add: ageRates_def lifeTable_def)

lemma ageRates_range:
  "0 \<le> fst (ageRates a)" "fst (ageRates a) \<le> 1" "0 \<le> snd (ageRates a)" "snd (ageRates a) \<le> 1"
  using interpolateQx_range[OF qxTable_lifeTable[of Female], of "of_int a"]
    interpolateQx_range[OF qxTable_lifeTable[of Male], of "of_int a"]
  by (simp_all add: ageRates_def lifeTable_def)

lemma sumStep_mono: "q \<le> 1 \<Longrightarrow> v \<le> w \<Longrightarrow> sumStep q v \<le> sumStep q w"
  by (simp add: sumStep_def mult_left_mono)

lemma truncDown_le: "truncDown x \<le> x"
  by (simp add: truncDown_def divide_le_eq)

lemma truncUp_ge: "x \<le> truncUp x"
  by (simp add: truncUp_def le_divide_eq)

lemma gapStep_bounds:
  assumes "gapBounds (a + 1) s" "a \<le> 109"
  shows "gapBounds a (gapStep (ageRates a) s)"
proof -
  note r = ageRates_range[of a]
  from assms(1) have s: "fst s \<le> curveSum Female (a + 1)"
    "fst (snd s) \<le> curveSum Male (a + 1)" "curveSum Male (a + 1) \<le> snd (snd s)"
    by (simp_all add: gapBounds_def)
  have "truncDown (sumStep (fst (ageRates a)) (fst s)) \<le> sumStep (fst (ageRates a)) (fst s)"
    by (rule truncDown_le)
  also have "\<dots> \<le> curveSum Female a"
    unfolding curveSum_step(1)[OF assms(2)] by (rule sumStep_mono[OF r(2) s(1)])
  finally have 1: "truncDown (sumStep (fst (ageRates a)) (fst s)) \<le> curveSum Female a" .
  have "truncDown (sumStep (snd (ageRates a)) (fst (snd s))) \<le> sumStep (snd (ageRates a)) (fst (snd s))"
    by (rule truncDown_le)
  also have "\<dots> \<le> curveSum Male a"
    unfolding curveSum_step(2)[OF assms(2)] by (rule sumStep_mono[OF r(4) s(2)])
  finally have 2: "truncDown (sumStep (snd (ageRates a)) (fst (snd s))) \<le> curveSum Male a" .
  have "curveSum Male a \<le> sumStep (snd (ageRates a)) (snd (snd s))"
    unfolding curveSum_step(2)[OF assms(2)] by (rule sumStep_mono[OF r(4) s(3)])
  also have "\<dots> \<le> truncUp (sumStep (snd (ageRates a)) (snd (snd s)))"
    by (rule truncUp_ge)
  finally have 3: "curveSum Male a \<le> truncUp (sumStep (snd (ageRates a)) (snd (snd s)))" .
  show ?thesis using 1 2 3 by (simp add: gapBounds_def gapStep_def)
qed

lemma gapTest_gap:
  "gapTest a s \<Longrightarrow> gapBounds a s \<Longrightarrow> a \<le> 102 \<Longrightarrow>
   1 / 10 \<le> curveSum Female a - curveSum Male a"
  by (auto simp: gapTest_def gapBounds_def)

lemma gapRun_sound:
  assumes "gapRun (ratesDown n (a - 1)) a s = Some s'" "gapBounds a s" "a \<le> 110"
  shows "gapBounds (a - int n) s' \<and>
         (\<forall>b. a - int n \<le> b \<and> b \<le> a \<and> b \<le> 102 \<longrightarrow>
              1 / 10 \<le> curveSum Female b - curveSum Male b)"
  using assms
proof (induction n arbitrary: a s)
  case 0
  then have t: "gapTest a s" and e: "s' = s" by (simp_all split: if_splits)
  show ?case using gapTest_gap[OF t "0.prems"(2)] "0.prems"(2) by (auto simp: e)
next
  case (Suc n)
  from Suc.prems(1) have t: "gapTest a s"
    and run: "gapRun (ratesDown n (a - 1 - 1)) (a - 1) (gapStep (ageRates (a - 1)) s) = Some s'"
    by (simp_all split: if_splits)
  have b1: "gapBounds (a - 1) (gapStep (ageRates (a - 1)) s)"
    using gapStep_bounds[of "a - 1" s] Suc.prems(2,3) by simp
  have le: "a - 1 \<le> 110" using Suc.prems(3) by simp
  note IH = Suc.IH[OF run b1 le]
  have here: "a \<le> 102 \<Longrightarrow> 1 / 10 \<le> curveSum Female a - curveSum Male a"
    by (rule gapTest_gap[OF t Suc.prems(2)])
  have eq: "a - int (Suc n) = a - 1 - int n" by simp
  show ?case
  proof (intro conjI allI impI)
    show "gapBounds (a - int (Suc n)) s'" unfolding eq using IH by simp
  next
    fix b assume b: "a - int (Suc n) \<le> b \<and> b \<le> a \<and> b \<le> 102"
    show "1 / 10 \<le> curveSum Female b - curveSum Male b"
    proof (cases "b = a")
      case True
      then show ?thesis using here b by simp
    next
      case False
      then have "a - 1 - int n \<le> b \<and> b \<le> a - 1 \<and> b \<le> 102" using b by simp
      then show ?thesis using IH by blast
    qed
  qed
qed

text \<open>
  The rates of the two tables at the ages 109, 108, ..., 0, and the run of \<open>gapRun\<close> over
  them from the empty sums at age 110.
\<close>

lemma male_table_nf:
  "LIFE_TABLE_QX_MALE =
     [(0, 3 / 500), (1, 1 / 2500), (5, 3 / 20000), (10, 3 / 25000), (15, 3 / 5000),
      (20, 13 / 10000), (25, 1 / 625), (30, 17 / 10000), (35, 1 / 500), (40, 1 / 400),
      (45, 19 / 5000), (50, 29 / 5000), (55, 9 / 1000), (60, 27 / 2000), (65, 19 / 1000),
      (70, 27 / 1000), (75, 21 / 500), (80, 67 / 1000), (85, 21 / 200), (90, 33 / 200),
      (95, 1 / 4), (100, 19 / 50), (105, 1 / 2), (110, 1)]"
  by (simp add: LIFE_TABLE_QX_MALE_def)

lemma female_table_nf:
  "LIFE_TABLE_QX_FEMALE =
     [(0, 1 / 200), (1, 7 / 20000), (5, 3 / 25000), (10, 1 / 10000), (15, 3 / 10000),
      (20, 1 / 2000), (25, 3 / 5000), (30, 7 / 10000), (35, 9 / 10000), (40, 7 / 5000),
      (45, 11 / 5000), (50, 7 / 2000), (55, 11 / 2000), (60, 17 / 2000), (65, 1 / 80),
      (70, 19 / 1000), (75, 31 / 1000), (80, 13 / 250), (85, 11 / 125), (90, 29 / 200),
      (95, 11 / 50), (100, 7 / 20), (105, 12 / 25), (110, 1)]"
  by (simp add: LIFE_TABLE_QX_FEMALE_def)

lemma ratesDown_value:
  "ratesDown 110 109 =
    [(112 / 125, 9 / 10),
     (99 / 125, 4 / 5),
     (86 / 125, 7 / 10),
     (73 / 125, 3 / 5),
     (12 / 25, 1 / 2),
     (227 / 500, 119 / 250),
     (107 / 250, 113 / 250),
     (201 / 500, 107 / 250),
     (47 / 125, 101 / 250),
     (7 / 20, 19 / 50),
     (81 / 250, 177 / 500),
     (149 / 500, 41 / 125),
     (34 / 125, 151 / 500),
     (123 / 500, 69 / 250),
     (11 / 50, 1 / 4),
     (41 / 200, 233 / 1000),
     (19 / 100, 27 / 125),
     (7 / 40, 199 / 1000),
     (4 / 25, 91 / 500),
     (29 / 200, 33 / 200),
     (167 / 1250, 153 / 1000),
     (611 / 5000, 141 / 1000),
     (277 / 2500, 129 / 1000),
     (497 / 5000, 117 / 1000),
     (11 / 125, 21 / 200),
     (101 / 1250, 487 / 5000),
     (46 / 625, 449 / 5000),
     (83 / 1250, 411 / 5000),
     (37 / 625, 373 / 5000),
     (13 / 250, 67 / 1000),
     (239 / 5000, 31 / 500),
     (109 / 2500, 57 / 1000),
     (197 / 5000, 13 / 250),
     (22 / 625, 47 / 1000),
     (31 / 1000, 21 / 500),
     (143 / 5000, 39 / 1000),
     (131 / 5000, 9 / 250),
     (119 / 5000, 33 / 1000),
     (107 / 5000, 3 / 100),
     (19 / 1000, 27 / 1000),
     (177 / 10000, 127 / 5000),
     (41 / 2500, 119 / 5000),
     (151 / 10000, 111 / 5000),
     (69 / 5000, 103 / 5000),
     (1 / 80, 19 / 1000),
     (117 / 10000, 179 / 10000),
     (109 / 10000, 21 / 1250),
     (101 / 10000, 157 / 10000),
     (93 / 10000, 73 / 5000),
     (17 / 2000, 27 / 2000),
     (79 / 10000, 63 / 5000),
     (73 / 10000, 117 / 10000),
     (67 / 10000, 27 / 2500),
     (61 / 10000, 99 / 10000),
     (11 / 2000, 9 / 1000),
     (51 / 10000, 209 / 25000),
     (47 / 10000, 193 / 25000),
     (43 / 10000, 177 / 25000),
     (39 / 10000, 161 / 25000),
     (7 / 2000, 29 / 5000),
     (81 / 25000, 27 / 5000),
     (149 / 50000, 1 / 200),
     (17 / 6250, 23 / 5000),
     (123 / 50000, 21 / 5000),
     (11 / 5000, 19 / 5000),
     (51 / 25000, 177 / 50000),
     (47 / 25000, 41 / 12500),
     (43 / 25000, 151 / 50000),
     (39 / 25000, 69 / 25000),
     (7 / 5000, 1 / 400),
     (13 / 10000, 3 / 1250),
     (3 / 2500, 23 / 10000),
     (11 / 10000, 11 / 5000),
     (1 / 1000, 21 / 10000),
     (9 / 10000, 1 / 500),
     (43 / 50000, 97 / 50000),
     (41 / 50000, 47 / 25000),
     (39 / 50000, 91 / 50000),
     (37 / 50000, 11 / 6250),
     (7 / 10000, 17 / 10000),
     (17 / 25000, 21 / 12500),
     (33 / 50000, 83 / 50000),
     (2 / 3125, 41 / 25000),
     (31 / 50000, 81 / 50000),
     (3 / 5000, 1 / 625),
     (29 / 50000, 77 / 50000),
     (7 / 12500, 37 / 25000),
     (27 / 50000, 71 / 50000),
     (13 / 25000, 17 / 12500),
     (1 / 2000, 13 / 10000),
     (23 / 50000, 29 / 25000),
     (21 / 50000, 51 / 50000),
     (19 / 50000, 11 / 12500),
     (17 / 50000, 37 / 50000),
     (3 / 10000, 3 / 5000),
     (13 / 50000, 63 / 125000),
     (11 / 50000, 51 / 125000),
     (9 / 50000, 39 / 125000),
     (7 / 50000, 27 / 125000),
     (1 / 10000, 3 / 25000),
     (13 / 125000, 63 / 500000),
     (27 / 250000, 33 / 250000),
     (7 / 62500, 69 / 500000),
     (29 / 250000, 9 / 62500),
     (3 / 25000, 3 / 20000),
     (71 / 400000, 17 / 80000),
     (47 / 200000, 11 / 40000),
     (117 / 400000, 27 / 80000),
     (7 / 20000, 1 / 2500),
     (1 / 200, 3 / 500)]"
  by (simp add: eval_nat_numeral ageRates_def interpolateQx_def male_table_nf female_table_nf)

lemma gapRun_value:
  "gapRun (ratesDown 110 109) 110 (0, 0, 0) =
     Some (39585227 / 500000, 74461591 / 1000000, 7446167 / 100000)"
  unfolding ratesDown_value
  by (simp add: gapStep_def gapTest_def truncDown_def truncUp_def sumStep_def)

lemma ageRates_nonpos: "b \<le> 0 \<Longrightarrow> ageRates b = (1 / 200, 3 / 500)"
  by (simp add: ageRates_def interpolateQx_def LIFE_TABLE_QX_FEMALE_def LIFE_TABLE_QX_MALE_def)

lemma curveSum_below_zero:
  assumes "gapBounds 0 (39585227 / 500000, 74461591 / 1000000, 7446167 / 100000)"
  shows "b \<le> 0 \<Longrightarrow> 4 \<le> curveSum Female b - curveSum Male b \<and> 70 \<le> curveSum Male b"
proof (induction "nat (- b)" arbitrary: b)
  case 0
  then have "b = 0" by simp
  then show ?case using assms by (simp add: gapBounds_def)
next
  case (Suc n)
  then have n: "n = nat (- (b + 1))" and b1: "b + 1 \<le> 0" and b: "b \<le> 0" "b \<le> 109" by linarith+
  note IH = Suc.hyps(1)[OF n b1]
  have F: "curveSum Female b = sumStep (1 / 200) (curveSum Female (b + 1))"
    and M: "curveSum Male b = sumStep (3 / 500) (curveSum Male (b + 1))"
    using curveSum_step[OF b(2)] by (simp_all add: ageRates_nonpos[OF b(1)])
  show ?case using IH unfolding F M sumStep_def by simp
qed

lemma lifeExpectancy_curveSum:
  "lifeExpectancyAtAge a sex = of_int (Math_round (curveSum sex \<lfloor>a\<rfloor> * 10)) / 10"
  by (simp add: lifeExpectancyAtAge_def computeSurvivalCurve_def curveSum_def trapezoidLoop_acc)

lemma gapRun_result:
  "gapBounds 0 (39585227 / 500000, 74461591 / 1000000, 7446167 / 100000) \<and>
   (\<forall>b. 0 \<le> b \<and> b \<le> 102 \<longrightarrow> 1 / 10 \<le> curveSum Female b - curveSum Male b)"
proof -
  have b0: "gapBounds 110 (0, 0, 0)" by (simp add: gapBounds_def curveSum_110)
  have run: "gapRun (ratesDown 110 (110 - 1)) 110 (0, 0, 0) =
     Some (39585227 / 500000, 74461591 / 1000000, 7446167 / 100000)"
    using gapRun_value by simp
  show ?thesis using gapRun_sound[OF run b0] by simp
qed

lemma curveSum_gap:
  assumes "b \<le> 102"
  shows "1 / 10 \<le> curveSum Female b - curveSum Male b"
proof (cases "0 \<le> b")
  case True
  then show ?thesis using gapRun_result assms by blast
next
  case False
  then have "b \<le> 0" by simp
  from curveSum_below_zero[OF conjunct1[OF gapRun_result] this] show ?thesis by simp
qed

text \<open>
  Claim C6, as the code has it.  At every age the life expectancy of a woman is at least
  that of a man: the female mortality rates are nowhere above the male ones, so the female
  survival curve lies on or above the male one and so does its trapezoidal sum; rounding to
  one decimal keeps the order.  Up to the age of 102 (the integer part of \<open>currentAge\<close>
  counts, and ages below 0 are included) the two sums differ by 0.1 or more, so the rounded
  values differ as well and the female life expectancy is strictly the higher one.
\<close>

theorem lifeExpectancy_female_ge_male:
  "lifeExpectancyAtAge a Male \<le> lifeExpectancyAtAge a Female \<and>
   (\<lfloor>a\<rfloor> \<le> 102 \<longrightarrow> lifeExpectancyAtAge a Male < lifeExpectancyAtAge a Female)"
proof (intro conjI impI)
  show "lifeExpectancyAtAge a Male \<le> lifeExpectancyAtAge a Female"
    using trapezoid_female_ge_male[of defaultMaxAge "\<lfloor>a\<rfloor>"]
    by (simp add: lifeExpectancyAtAge_def computeSurvivalCurve_def lifeTable_def trapezoidLoop_acc
        Math_round_mono divide_right_mono)
next
  assume "\<lfloor>a\<rfloor> \<le> 102"
  then have "curveSum Male \<lfloor>a\<rfloor> * 10 + 1 \<le> curveSum Female \<lfloor>a\<rfloor> * 10"
    using curveSum_gap[of "\<lfloor>a\<rfloor>"] by simp
  then have "Math_round (curveSum Male \<lfloor>a\<rfloor> * 10) < Math_round (curveSum Female \<lfloor>a\<rfloor> * 10)"
    by (rule Math_round_less)
  then show "lifeExpectancyAtAge a Male < lifeExpectancyAtAge a Female"
    by (simp add: lifeExpectancy_curveSum divide_strict_right_mono)
qed

text \<open>The theorem at the age of 30.\<close>

theorem lifeExpectancy_female_ge_male_witness:
  "lifeExpectancyAtAge 30 Male \<le> lifeExpectancyAtAge 30 Female \<and>
   lifeExpectancyAtAge 30 Male < lifeExpectancyAtAge 30 Female"
  using lifeExpectancy_female_ge_male[of 30] by simp

text \<open>
  Counterexample to C6 as stated: at age 110 the curve is the single point \<open>(110, 1)\<close>
  for either sex, the sum is empty and both life expectancies are 0; and at age 103
  both sums round to 1.6.
\<close>

theorem lifeExpectancy_strict_counterexample:
  "lifeExpectancyAtAge 110 Female = 0 \<and> lifeExpectancyAtAge 110 Male = 0 \<and>
   lifeExpectancyAtAge 103 Female = 8 / 5 \<and> lifeExpectancyAtAge 103 Male = 8 / 5 \<and>
   \<not> lifeExpectancyAtAge 110 Male < lifeExpectancyAtAge 110 Female \<and>
   \<not> lifeExpectancyAtAge 103 Male < lifeExpectancyAtAge 103 Female"
  by (simp add: lifeExpectancyAtAge_def computeSurvivalCurve_def defaultMaxAge_def lifeTable_def
      survivalLoop.simps interpolateQx_def male_table_nf female_table_nf Math_round_def)

subsection \<open>Care-needs curve\<close>

lemma careLoop_unfold: "a \<le> 100 \<Longrightarrow> careLoop sex a = carePoint a sex # careLoop sex (a + 1)"
  by (subst careLoop.simps) simp

lemma careLoop_empty: "\<not> a \<le> 100 \<Longrightarrow> careLoop sex a = []"
  by (subst careLoop.simps) simp

lemma careLoop_points:
  "p \<in> set (careLoop sex a) \<Longrightarrow> \<exists>b. a \<le> b \<and> b \<le> 100 \<and> p = carePoint b sex"
proof (induction sex a rule: careLoop.induct)
  case (1 sex a)
  show ?case
  proof (cases "a \<le> 100")
    case True
    from "1.prems" consider "p = carePoint a sex" | "p \<in> set (careLoop sex (a + 1))"
      by (auto simp: careLoop_unfold[OF True])
    then show ?thesis
    proof cases
      case 1
      then show ?thesis using True by auto
    next
      case 2
      then obtain b where "a + 1 \<le> b" "b \<le> 100" "p = carePoint b sex"
        using "1.IH"[OF True] by blast
      then show ?thesis by (intro exI[of _ b]) simp
    qed
  next
    case False
    then show ?thesis using "1.prems" by (simp add: careLoop_empty)
  qed
qed

lemma carePoint_young:
  "a < 60 \<Longrightarrow> carePoint a sex =
     \<lparr>age = a, independentLiving = 95, lightAssistance = 3, moderateAssistance = 3 / 2,
      fullCare = 1 / 2\<rparr>"
  by (simp add: carePoint_def careShares_def genderFactor_def Math_round_def)

lemma carePoint_male_values:
  "carePoint 60 Male = \<lparr>age = 60, independentLiving = 95, lightAssistance = 3, moderateAssistance = 3 / 2, fullCare = 1 / 2\<rparr>"
  "carePoint 61 Male = \<lparr>age = 61, independentLiving = 469 / 5, lightAssistance = 18 / 5, moderateAssistance = 19 / 10, fullCare = 7 / 10\<rparr>"
  "carePoint 62 Male = \<lparr>age = 62, independentLiving = 463 / 5, lightAssistance = 21 / 5, moderateAssistance = 23 / 10, fullCare = 9 / 10\<rparr>"
  "carePoint 63 Male = \<lparr>age = 63, independentLiving = 457 / 5, lightAssistance = 24 / 5, moderateAssistance = 27 / 10, fullCare = 11 / 10\<rparr>"
  "carePoint 64 Male = \<lparr>age = 64, independentLiving = 451 / 5, lightAssistance = 27 / 5, moderateAssistance = 31 / 10, fullCare = 13 / 10\<rparr>"
  "carePoint 65 Male = \<lparr>age = 65, independentLiving = 89, lightAssistance = 6, moderateAssistance = 7 / 2, fullCare = 3 / 2\<rparr>"
  "carePoint 66 Male = \<lparr>age = 66, independentLiving = 439 / 5, lightAssistance = 33 / 5, moderateAssistance = 39 / 10, fullCare = 17 / 10\<rparr>"
  "carePoint 67 Male = \<lparr>age = 67, independentLiving = 433 / 5, lightAssistance = 36 / 5, moderateAssistance = 43 / 10, fullCare = 19 / 10\<rparr>"
  "carePoint 68 Male = \<lparr>age = 68, independentLiving = 427 / 5, lightAssistance = 39 / 5, moderateAssistance = 47 / 10, fullCare = 21 / 10\<rparr>"
  "carePoint 69 Male = \<lparr>age = 69, independentLiving = 421 / 5, lightAssistance = 42 / 5, moderateAssistance = 51 / 10, fullCare = 23 / 10\<rparr>"
  "carePoint 70 Male = \<lparr>age = 70, independentLiving = 83, lightAssistance = 9, moderateAssistance = 11 / 2, fullCare = 5 / 2\<rparr>"
  "carePoint 71 Male = \<lparr>age = 71, independentLiving = 161 / 2, lightAssistance = 10, moderateAssistance = 13 / 2, fullCare = 3\<rparr>"
  "carePoint 72 Male = \<lparr>age = 72, independentLiving = 78, lightAssistance = 11, moderateAssistance = 15 / 2, fullCare = 7 / 2\<rparr>"
  "carePoint 73 Male = \<lparr>age = 73, independentLiving = 151 / 2, lightAssistance = 12, moderateAssistance = 17 / 2, fullCare = 4\<rparr>"
  "carePoint 74 Male = \<lparr>age = 74, independentLiving = 73, lightAssistance = 13, moderateAssistance = 19 / 2, fullCare = 9 / 2\<rparr>"
  "carePoint 75 Male = \<lparr>age = 75, independentLiving = 141 / 2, lightAssistance = 14, moderateAssistance = 21 / 2, fullCare = 5\<rparr>"
  "carePoint 76 Male = \<lparr>age = 76, independentLiving = 68, lightAssistance = 15, moderateAssistance = 23 / 2, fullCare = 11 / 2\<rparr>"
  "carePoint 77 Male = \<lparr>age = 77, independentLiving = 131 / 2, lightAssistance = 16, moderateAssistance = 25 / 2, fullCare = 6\<rparr>"
  "carePoint 78 Male = \<lparr>age = 78, independentLiving = 63, lightAssistance = 17, moderateAssistance = 27 / 2, fullCare = 13 / 2\<rparr>"
  "carePoint 79 Male = \<lparr>age = 79, independentLiving = 121 / 2, lightAssistance = 18, moderateAssistance = 29 / 2, fullCare = 7\<rparr>"
  "carePoint 80 Male = \<lparr>age = 80, independentLiving = 58, lightAssistance = 19, moderateAssistance = 31 / 2, fullCare = 15 / 2\<rparr>"
  "carePoint 81 Male = \<lparr>age = 81, independentLiving = 55, lightAssistance = 39 / 2, moderateAssistance = 17, fullCare = 17 / 2\<rparr>"
  "carePoint 82 Male = \<lparr>age = 82, independentLiving = 52, lightAssistance = 20, moderateAssistance = 37 / 2, fullCare = 19 / 2\<rparr>"
  "carePoint 83 Male = \<lparr>age = 83, independentLiving = 49, lightAssistance = 41 / 2, moderateAssistance = 20, fullCare = 21 / 2\<rparr>"
  "carePoint 84 Male = \<lparr>age = 84, independentLiving = 46, lightAssistance = 21, moderateAssistance = 43 / 2, fullCare = 23 / 2\<rparr>"
  "carePoint 85 Male = \<lparr>age = 85, independentLiving = 43, lightAssistance = 43 / 2, moderateAssistance = 23, fullCare = 25 / 2\<rparr>"
  "carePoint 86 Male = \<lparr>age = 86, independentLiving = 40, lightAssistance = 22, moderateAssistance = 49 / 2, fullCare = 27 / 2\<rparr>"
  "carePoint 87 Male = \<lparr>age = 87, independentLiving = 37, lightAssistance = 45 / 2, moderateAssistance = 26, fullCare = 29 / 2\<rparr>"
  "carePoint 88 Male = \<lparr>age = 88, independentLiving = 34, lightAssistance = 23, moderateAssistance = 55 / 2, fullCare = 31 / 2\<rparr>"
  "carePoint 89 Male = \<lparr>age = 89, independentLiving = 31, lightAssistance = 47 / 2, moderateAssistance = 29, fullCare = 33 / 2\<rparr>"
  "carePoint 90 Male = \<lparr>age = 90, independentLiving = 28, lightAssistance = 24, moderateAssistance = 61 / 2, fullCare = 35 / 2\<rparr>"
  "carePoint 91 Male = \<lparr>age = 91, independentLiving = 26, lightAssistance = 47 / 2, moderateAssistance = 31, fullCare = 39 / 2\<rparr>"
  "carePoint 92 Male = \<lparr>age = 92, independentLiving = 24, lightAssistance = 23, moderateAssistance = 63 / 2, fullCare = 43 / 2\<rparr>"
  "carePoint 93 Male = \<lparr>age = 93, independentLiving = 22, lightAssistance = 45 / 2, moderateAssistance = 32, fullCare = 47 / 2\<rparr>"
  "carePoint 94 Male = \<lparr>age = 94, independentLiving = 20, lightAssistance = 22, moderateAssistance = 65 / 2, fullCare = 51 / 2\<rparr>"
  "carePoint 95 Male = \<lparr>age = 95, independentLiving = 18, lightAssistance = 43 / 2, moderateAssistance = 33, fullCare = 55 / 2\<rparr>"
  "carePoint 96 Male = \<lparr>age = 96, independentLiving = 16, lightAssistance = 21, moderateAssistance = 67 / 2, fullCare = 59 / 2\<rparr>"
  "carePoint 97 Male = \<lparr>age = 97, independentLiving = 14, lightAssistance = 41 / 2, moderateAssistance = 34, fullCare = 63 / 2\<rparr>"
  "carePoint 98 Male = \<lparr>age = 98, independentLiving = 12, lightAssistance = 20, moderateAssistance = 69 / 2, fullCare = 67 / 2\<rparr>"
  "carePoint 99 Male = \<lparr>age = 99, independentLiving = 10, lightAssistance = 39 / 2, moderateAssistance = 35, fullCare = 71 / 2\<rparr>"
  "carePoint 100 Male = \<lparr>age = 100, independentLiving = 8, lightAssistance = 19, moderateAssistance = 71 / 2, fullCare = 75 / 2\<rparr>"
  by (simp_all add: carePoint_def careShares_def genderFactor_def Math_round_def)

lemma carePoint_female_values:
  "carePoint 60 Female = \<lparr>age = 60, independentLiving = 95, lightAssistance = 3, moderateAssistance = 3 / 2, fullCare = 1 / 2\<rparr>"
  "carePoint 61 Female = \<lparr>age = 61, independentLiving = 468 / 5, lightAssistance = 37 / 10, moderateAssistance = 2, fullCare = 7 / 10\<rparr>"
  "carePoint 62 Female = \<lparr>age = 62, independentLiving = 461 / 5, lightAssistance = 22 / 5, moderateAssistance = 12 / 5, fullCare = 1\<rparr>"
  "carePoint 63 Female = \<lparr>age = 63, independentLiving = 909 / 10, lightAssistance = 51 / 10, moderateAssistance = 29 / 10, fullCare = 6 / 5\<rparr>"
  "carePoint 64 Female = \<lparr>age = 64, independentLiving = 179 / 2, lightAssistance = 29 / 5, moderateAssistance = 33 / 10, fullCare = 7 / 5\<rparr>"
  "carePoint 65 Female = \<lparr>age = 65, independentLiving = 881 / 10, lightAssistance = 13 / 2, moderateAssistance = 19 / 5, fullCare = 17 / 10\<rparr>"
  "carePoint 66 Female = \<lparr>age = 66, independentLiving = 867 / 10, lightAssistance = 71 / 10, moderateAssistance = 43 / 10, fullCare = 19 / 10\<rparr>"
  "carePoint 67 Female = \<lparr>age = 67, independentLiving = 853 / 10, lightAssistance = 39 / 5, moderateAssistance = 47 / 10, fullCare = 21 / 10\<rparr>"
  "carePoint 68 Female = \<lparr>age = 68, independentLiving = 84, lightAssistance = 17 / 2, moderateAssistance = 26 / 5, fullCare = 23 / 10\<rparr>"
  "carePoint 69 Female = \<lparr>age = 69, independentLiving = 413 / 5, lightAssistance = 46 / 5, moderateAssistance = 28 / 5, fullCare = 13 / 5\<rparr>"
  "carePoint 70 Female = \<lparr>age = 70, independentLiving = 403 / 5, lightAssistance = 103 / 10, moderateAssistance = 63 / 10, fullCare = 29 / 10\<rparr>"
  "carePoint 71 Female = \<lparr>age = 71, independentLiving = 155 / 2, lightAssistance = 23 / 2, moderateAssistance = 15 / 2, fullCare = 7 / 2\<rparr>"
  "carePoint 72 Female = \<lparr>age = 72, independentLiving = 149 / 2, lightAssistance = 127 / 10, moderateAssistance = 44 / 5, fullCare = 41 / 10\<rparr>"
  "carePoint 73 Female = \<lparr>age = 73, independentLiving = 143 / 2, lightAssistance = 139 / 10, moderateAssistance = 10, fullCare = 47 / 10\<rparr>"
  "carePoint 74 Female = \<lparr>age = 74, independentLiving = 137 / 2, lightAssistance = 15, moderateAssistance = 56 / 5, fullCare = 53 / 10\<rparr>"
  "carePoint 75 Female = \<lparr>age = 75, independentLiving = 328 / 5, lightAssistance = 81 / 5, moderateAssistance = 123 / 10, fullCare = 59 / 10\<rparr>"
  "carePoint 76 Female = \<lparr>age = 76, independentLiving = 314 / 5, lightAssistance = 173 / 10, moderateAssistance = 27 / 2, fullCare = 13 / 2\<rparr>"
  "carePoint 77 Female = \<lparr>age = 77, independentLiving = 60, lightAssistance = 92 / 5, moderateAssistance = 73 / 5, fullCare = 7\<rparr>"
  "carePoint 78 Female = \<lparr>age = 78, independentLiving = 286 / 5, lightAssistance = 39 / 2, moderateAssistance = 157 / 10, fullCare = 38 / 5\<rparr>"
  "carePoint 79 Female = \<lparr>age = 79, independentLiving = 109 / 2, lightAssistance = 41 / 2, moderateAssistance = 84 / 5, fullCare = 81 / 10\<rparr>"
  "carePoint 80 Female = \<lparr>age = 80, independentLiving = 54, lightAssistance = 104 / 5, moderateAssistance = 17, fullCare = 41 / 5\<rparr>"
  "carePoint 81 Female = \<lparr>age = 81, independentLiving = 507 / 10, lightAssistance = 106 / 5, moderateAssistance = 187 / 10, fullCare = 47 / 5\<rparr>"
  "carePoint 82 Female = \<lparr>age = 82, independentLiving = 238 / 5, lightAssistance = 43 / 2, moderateAssistance = 102 / 5, fullCare = 21 / 2\<rparr>"
  "carePoint 83 Female = \<lparr>age = 83, independentLiving = 222 / 5, lightAssistance = 219 / 10, moderateAssistance = 22, fullCare = 117 / 10\<rparr>"
  "carePoint 84 Female = \<lparr>age = 84, independentLiving = 413 / 10, lightAssistance = 111 / 5, moderateAssistance = 237 / 10, fullCare = 64 / 5\<rparr>"
  "carePoint 85 Female = \<lparr>age = 85, independentLiving = 383 / 10, lightAssistance = 45 / 2, moderateAssistance = 253 / 10, fullCare = 139 / 10\<rparr>"
  "carePoint 86 Female = \<lparr>age = 86, independentLiving = 353 / 10, lightAssistance = 229 / 10, moderateAssistance = 269 / 10, fullCare = 15\<rparr>"
  "carePoint 87 Female = \<lparr>age = 87, independentLiving = 162 / 5, lightAssistance = 116 / 5, moderateAssistance = 142 / 5, fullCare = 16\<rparr>"
  "carePoint 88 Female = \<lparr>age = 88, independentLiving = 59 / 2, lightAssistance = 47 / 2, moderateAssistance = 299 / 10, fullCare = 171 / 10\<rparr>"
  "carePoint 89 Female = \<lparr>age = 89, independentLiving = 267 / 10, lightAssistance = 119 / 5, moderateAssistance = 157 / 5, fullCare = 181 / 10\<rparr>"
  "carePoint 90 Female = \<lparr>age = 90, independentLiving = 28, lightAssistance = 24, moderateAssistance = 61 / 2, fullCare = 35 / 2\<rparr>"
  "carePoint 91 Female = \<lparr>age = 91, independentLiving = 26, lightAssistance = 47 / 2, moderateAssistance = 31, fullCare = 39 / 2\<rparr>"
  "carePoint 92 Female = \<lparr>age = 92, independentLiving = 24, lightAssistance = 23, moderateAssistance = 63 / 2, fullCare = 43 / 2\<rparr>"
  "carePoint 93 Female = \<lparr>age = 93, independentLiving = 22, lightAssistance = 45 / 2, moderateAssistance = 32, fullCare = 47 / 2\<rparr>"
  "carePoint 94 Female = \<lparr>age = 94, independentLiving = 20, lightAssistance = 22, moderateAssistance = 65 / 2, fullCare = 51 / 2\<rparr>"
  "carePoint 95 Female = \<lparr>age = 95, independentLiving = 18, lightAssistance = 43 / 2, moderateAssistance = 33, fullCare = 55 / 2\<rparr>"
  "carePoint 96 Female = \<lparr>age = 96, independentLiving = 16, lightAssistance = 21, moderateAssistance = 67 / 2, fullCare = 59 / 2\<rparr>"
  "carePoint 97 Female = \<lparr>age = 97, independentLiving = 14, lightAssistance = 41 / 2, moderateAssistance = 34, fullCare = 63 / 2\<rparr>"
  "carePoint 98 Female = \<lparr>age = 98, independentLiving = 12, lightAssistance = 20, moderateAssistance = 69 / 2, fullCare = 67 / 2\<rparr>"
  "carePoint 99 Female = \<lparr>age = 99, independentLiving = 10, lightAssistance = 39 / 2, moderateAssistance = 35, fullCare = 71 / 2\<rparr>"
  "carePoint 100 Female = \<lparr>age = 100, independentLiving = 8, lightAssistance = 19, moderateAssistance = 71 / 2, fullCare = 75 / 2\<rparr>"
  by (simp_all add: carePoint_def careShares_def genderFactor_def Math_round_def)

lemma care_age_cases:
  fixes b :: int
  assumes "60 \<le> b" "b \<le> 100"
  shows "b = 60 \<or> b = 61 \<or> b = 62 \<or> b = 63 \<or> b = 64 \<or> b = 65 \<or> b = 66 \<or> b = 67 \<or> b = 68 \<or> b = 69 \<or> b = 70 \<or> b = 71 \<or> b = 72 \<or> b = 73 \<or> b = 74 \<or> b = 75 \<or> b = 76 \<or> b = 77 \<or> b = 78 \<or> b = 79 \<or> b = 80 \<or> b = 81 \<or> b = 82 \<or> b = 83 \<or> b = 84 \<or> b = 85 \<or> b = 86 \<or> b = 87 \<or> b = 88 \<or> b = 89 \<or> b = 90 \<or> b = 91 \<or> b = 92 \<or> b = 93 \<or> b = 94 \<or> b = 95 \<or> b = 96 \<or> b = 97 \<or> b = 98 \<or> b = 99 \<or> b = 100"
  using assms by arith

lemma careSum_carePoint: "b \<le> 100 \<Longrightarrow> \<bar>careSum (carePoint b sex) - 100\<bar> \<le> 1 / 10"
proof (cases "b < 60")
  case True
  then show ?thesis by (simp add: carePoint_young careSum_def)
next
  case False
  assume "b \<le> 100"
  with False have c: "60 \<le> b" "b \<le> 100" by simp_all
  show ?thesis
  proof (cases sex)
    case Male
    show ?thesis unfolding Male
      using care_age_cases[OF c] by (elim disjE) (simp_all add: carePoint_male_values careSum_def)
  next
    case Female
    show ?thesis unfolding Female
      using care_age_cases[OF c] by (elim disjE) (simp_all add: carePoint_female_values careSum_def)
  qed
qed

text \<open>
  Claim C3, as the code has it.  Each of the four shares is rounded to one decimal on its
  own after the normalisation, so the reported percentages need not add up to 100 exactly;
  at every age point of every curve their sum is within 0.1 of 100.
\<close>

theorem care_needs_sum_near_100:
  "\<forall>p \<in> set (computeCareNeedsCurve startAge sex).
     \<bar>independentLiving p + lightAssistance p + moderateAssistance p + fullCare p - 100\<bar> \<le> 1 / 10"
proof
  fix p assume "p \<in> set (computeCareNeedsCurve startAge sex)"
  then obtain b where "b \<le> 100" "p = carePoint b sex"
    using careLoop_points[of p sex "\<lfloor>startAge\<rfloor>"] by (auto simp: computeCareNeedsCurve_def)
  then show "\<bar>independentLiving p + lightAssistance p + moderateAssistance p + fullCare p - 100\<bar> \<le> 1 / 10"
    using careSum_carePoint[of b sex] by (simp add: careSum_def)
qed

text \<open>Witness for C3: the first point of the curve of a 63-year-old woman.\<close>

lemma care_curve_63_hd: "hd (computeCareNeedsCurve 63 Female) = carePoint 63 Female"
  by (simp add: computeCareNeedsCurve_def careLoop_unfold)

theorem care_needs_sum_near_100_witness:
  "hd (computeCareNeedsCurve 63 Female) \<in> set (computeCareNeedsCurve 63 Female) \<and>
   \<bar>independentLiving (hd (computeCareNeedsCurve 63 Female)) +
     lightAssistance (hd (computeCareNeedsCurve 63 Female)) +
     moderateAssistance (hd (computeCareNeedsCurve 63 Female)) +
     fullCare (hd (computeCareNeedsCurve 63 Female)) - 100\<bar> \<le> 1 / 10"
proof -
  have "hd (computeCareNeedsCurve 63 Female) \<in> set (computeCareNeedsCurve 63 Female)"
    by (simp add: computeCareNeedsCurve_def careLoop_unfold)
  then show ?thesis using care_needs_sum_near_100[of 63 Female] by blast
qed

text \<open>
  Counterexample to C3 as stated: for a woman of 63 the shares 0.9086, 0.0507, 0.0288 and
  0.0119 are reported as 90.9, 5.1, 2.9 and 1.2, which add up to 100.1.
\<close>

theorem care_needs_sum_exact_counterexample:
  "hd (computeCareNeedsCurve 63 Female) =
     \<lparr>age = 63, independentLiving = 909 / 10, lightAssistance = 51 / 10,
      moderateAssistance = 29 / 10, fullCare = 12 / 10\<rparr> \<and>
   independentLiving (hd (computeCareNeedsCurve 63 Female)) +
     lightAssistance (hd (computeCareNeedsCurve 63 Female)) +
     moderateAssistance (hd (computeCareNeedsCurve 63 Female)) +
     fullCare (hd (computeCareNeedsCurve 63 Female)) = 1001 / 10 \<and>
   independentLiving (hd (computeCareNeedsCurve 63 Female)) +
     lightAssistance (hd (computeCareNeedsCurve 63 Female)) +
     moderateAssistance (hd (computeCareNeedsCurve 63 Female)) +
     fullCare (hd (computeCareNeedsCurve 63 Female)) \<noteq> 100"
  by (simp add: care_curve_63_hd carePoint_female_values)

subsection \<open>Care needs with advancing age\<close>

text \<open>
  From one age to the next between 60 and 100, the full-care percentage of the male curve
  never falls and its independent-living percentage never rises.  The female curve does the
  same at every step but the one from 89 to 90.
\<close>

lemma care_monotone_male:
  assumes "60 \<le> b" "b < 100"
  shows "fullCare (carePoint b Male) \<le> fullCare (carePoint (b + 1) Male) \<and>
         independentLiving (carePoint (b + 1) Male) \<le> independentLiving (carePoint b Male)"
proof -
  have c: "60 \<le> b" "b \<le> 100" using assms by simp_all
  show ?thesis
    using care_age_cases[OF c] assms(2) by (elim disjE) (simp_all add: carePoint_male_values)
qed

lemma care_monotone_female:
  assumes "60 \<le> b" "b < 100" "b \<noteq> 89"
  shows "fullCare (carePoint b Female) \<le> fullCare (carePoint (b + 1) Female) \<and>
         independentLiving (carePoint (b + 1) Female) \<le> independentLiving (carePoint b Female)"
proof -
  have c: "60 \<le> b" "b \<le> 100" using assms by simp_all
  show ?thesis
    using care_age_cases[OF c] assms(2,3) by (elim disjE) (simp_all add: carePoint_female_values)
qed

text \<open>
  Claim C4 at the step it fails.  The branch for ages of 90 and above leaves out the gender
  factor that the three bands before it apply, so the female curve jumps back onto the male
  values there: from age 89 to age 90 independent living rises from 26.7 to 28.0 and full
  care falls from 18.1 to 17.5.
\<close>

theorem care_needs_female_89_90:
  "computeCareNeedsCurve 89 Female ! 0 =
     \<lparr>age = 89, independentLiving = 267 / 10, lightAssistance = 238 / 10,
      moderateAssistance = 314 / 10, fullCare = 181 / 10\<rparr> \<and>
   computeCareNeedsCurve 89 Female ! 1 =
     \<lparr>age = 90, independentLiving = 28, lightAssistance = 24,
      moderateAssistance = 305 / 10, fullCare = 175 / 10\<rparr> \<and>
   independentLiving (computeCareNeedsCurve 89 Female ! 0)
     < independentLiving (computeCareNeedsCurve 89 Female ! 1) \<and>
   fullCare (computeCareNeedsCurve 89 Female ! 1) < fullCare (computeCareNeedsCurve 89 Female ! 0)"
proof -
  have "computeCareNeedsCurve 89 Female =
        carePoint 89 Female # carePoint 90 Female # careLoop Female 91"
    using careLoop_unfold[of 89 Female] careLoop_unfold[of 90 Female]
    by (simp add: computeCareNeedsCurve_def)
  then show ?thesis by (simp add: carePoint_female_values)
qed

subsection \<open>Percentile ages\<close>

lemma round10_mono:
  "x \<le> y \<Longrightarrow> real_of_int (Math_round (x * 10)) / 10 \<le> real_of_int (Math_round (y * 10)) / 10"
  by (simp add: Math_round_mono divide_right_mono)

lemma round10_int: "real_of_int (Math_round (of_int n * 10)) / 10 = of_int n"
proof -
  have "\<lfloor>real_of_int n * 10 + 1 / 2\<rfloor> = n * 10"
    by (rule floor_unique) simp_all
  then show ?thesis by (simp add: Math_round_def)
qed

text \<open>The value found in a bracket of the curve.\<close>

lemma findAgeLoop_hit:
  assumes "s' \<le> target"
  shows "findAgeLoop target (\<lparr>SurvivalPoint.age = a, probability = s\<rparr> #
           \<lparr>SurvivalPoint.age = a + 1, probability = s'\<rparr> # rest) =
         Some (real_of_int (Math_round ((of_int a + (s - target) / (s - s')) * 10)) / 10)"
  using assms by (simp add: Let_def)

lemma findAgeLoop_miss:
  assumes "\<not> s' \<le> target"
  shows "findAgeLoop target (\<lparr>SurvivalPoint.age = a, probability = s\<rparr> #
           \<lparr>SurvivalPoint.age = a + 1, probability = s'\<rparr> # rest) =
         findAgeLoop target (\<lparr>SurvivalPoint.age = a + 1, probability = s'\<rparr> # rest)"
  using assms by simp

lemma bracket_value_bounds:
  fixes s s' target :: real
  assumes "s' \<le> target" "target < s"
  shows "of_int a \<le> real_of_int (Math_round ((of_int a + (s - target) / (s - s')) * 10)) / 10"
    and "real_of_int (Math_round ((of_int a + (s - target) / (s - s')) * 10)) / 10 \<le> of_int (a + 1)"
proof -
  have t: "0 \<le> (s - target) / (s - s')" "(s - target) / (s - s') \<le> 1"
    using assms by simp_all
  have "real_of_int (Math_round (of_int a * 10)) / 10
        \<le> real_of_int (Math_round ((of_int a + (s - target) / (s - s')) * 10)) / 10"
    using t(1) by (intro round10_mono) simp
  then show "of_int a \<le> real_of_int (Math_round ((of_int a + (s - target) / (s - s')) * 10)) / 10"
    by (simp only: round10_int)
  have "real_of_int (Math_round ((of_int a + (s - target) / (s - s')) * 10)) / 10
        \<le> real_of_int (Math_round (of_int (a + 1) * 10)) / 10"
    using t(2) by (intro round10_mono) simp
  then show "real_of_int (Math_round ((of_int a + (s - target) / (s - s')) * 10)) / 10 \<le> of_int (a + 1)"
    by (simp only: round10_int)
qed

lemma findAgeLoop_survival_range:
  "qxTable t \<Longrightarrow> target < s \<Longrightarrow> findAgeLoop target (survivalLoop t maxAge a s) = Some v \<Longrightarrow>
   of_int a \<le> v \<and> v \<le> of_int \<lfloor>maxAge\<rfloor>"
proof (induction "nat (\<lfloor>maxAge\<rfloor> - a)" arbitrary: a s)
  case 0
  then have "\<not> of_int a + 1 \<le> maxAge" by (simp add: le_floor_iff) linarith
  then have "survivalLoop t maxAge (a + 1) s' = []" for s'
    by (intro survivalLoop_empty) simp
  then have "findAgeLoop target (survivalLoop t maxAge a s) = None"
    by (cases "of_int a \<le> maxAge") (simp_all add: survivalLoop_unfold survivalLoop_empty)
  then show ?case using "0.prems" by simp
next
  case (Suc n)
  then have le: "of_int a + 1 \<le> maxAge" and n: "n = nat (\<lfloor>maxAge\<rfloor> - (a + 1))"
    by (simp_all add: le_floor_iff) linarith+
  have le0: "of_int a \<le> maxAge" and le1: "of_int (a + 1) \<le> maxAge" using le by simp_all
  have fl: "a + 1 \<le> \<lfloor>maxAge\<rfloor>" using le1 by (simp add: le_floor_iff)
  define s' where "s' = s * (1 - interpolateQx t (of_int a))"
  define rest where "rest = survivalLoop t maxAge (a + 1 + 1) (s' * (1 - interpolateQx t (of_int (a + 1))))"
  have c: "survivalLoop t maxAge a s =
      \<lparr>SurvivalPoint.age = a, probability = s\<rparr> # survivalLoop t maxAge (a + 1) s'"
    unfolding s'_def by (rule survivalLoop_unfold[OF le0])
  have c1: "survivalLoop t maxAge (a + 1) s' =
      \<lparr>SurvivalPoint.age = a + 1, probability = s'\<rparr> # rest"
    unfolding rest_def by (rule survivalLoop_unfold[OF le1])
  show ?case
  proof (cases "s' \<le> target")
    case True
    have v: "v = real_of_int (Math_round ((of_int a + (s - target) / (s - s')) * 10)) / 10"
      using Suc.prems(3) findAgeLoop_hit[OF True, of a s rest] by (simp add: c c1)
    show ?thesis
      using bracket_value_bounds[OF True Suc.prems(2), of a] fl unfolding v by linarith
  next
    case False
    then have "findAgeLoop target (survivalLoop t maxAge (a + 1) s') = Some v"
      using Suc.prems(3) findAgeLoop_miss[OF False, of a s rest] by (simp add: c c1)
    then have "of_int (a + 1) \<le> v \<and> v \<le> of_int \<lfloor>maxAge\<rfloor>"
      using Suc.hyps(1)[OF n Suc.prems(1), of s'] False by simp
    then show ?thesis by simp
  qed
qed

lemma findAgeLoop_None_mono:
  "target' \<le> target \<Longrightarrow> findAgeLoop target ps = None \<Longrightarrow> findAgeLoop target' ps = None"
  by (induction target ps rule: findAgeLoop.induct) (auto simp: Let_def split: if_splits)

lemma findAgeLoop_survival_mono:
  "qxTable t \<Longrightarrow> target' \<le> target \<Longrightarrow> target < s \<Longrightarrow>
   findAgeLoop target (survivalLoop t maxAge a s) = Some v \<Longrightarrow>
   findAgeLoop target' (survivalLoop t maxAge a s) = Some v' \<Longrightarrow> v \<le> v'"
proof (induction "nat (\<lfloor>maxAge\<rfloor> - a)" arbitrary: a s)
  case 0
  then have "\<not> of_int a + 1 \<le> maxAge" by (simp add: le_floor_iff) linarith
  then have "survivalLoop t maxAge (a + 1) s' = []" for s'
    by (intro survivalLoop_empty) simp
  then have "findAgeLoop target (survivalLoop t maxAge a s) = None"
    by (cases "of_int a \<le> maxAge") (simp_all add: survivalLoop_unfold survivalLoop_empty)
  then show ?case using "0.prems" by simp
next
  case (Suc n)
  then have le: "of_int a + 1 \<le> maxAge" and n: "n = nat (\<lfloor>maxAge\<rfloor> - (a + 1))"
    by (simp_all add: le_floor_iff) linarith+
  have le0: "of_int a \<le> maxAge" and le1: "of_int (a + 1) \<le> maxAge" using le by simp_all
  define s' where "s' = s * (1 - interpolateQx t (of_int a))"
  define rest where "rest = survivalLoop t maxAge (a + 1 + 1) (s' * (1 - interpolateQx t (of_int (a + 1))))"
  have c: "survivalLoop t maxAge a s =
      \<lparr>SurvivalPoint.age = a, probability = s\<rparr> # survivalLoop t maxAge (a + 1) s'"
    unfolding s'_def by (rule survivalLoop_unfold[OF le0])
  have c1: "survivalLoop t maxAge (a + 1) s' =
      \<lparr>SurvivalPoint.age = a + 1, probability = s'\<rparr> # rest"
    unfolding rest_def by (rule survivalLoop_unfold[OF le1])
  show ?case
  proof (cases "s' \<le> target")
    case hit: True
    have v: "v = real_of_int (Math_round ((of_int a + (s - target) / (s - s')) * 10)) / 10"
      using Suc.prems(4) findAgeLoop_hit[OF hit, of a s rest] by (simp add: c c1)
    show ?thesis
    proof (cases "s' \<le> target'")
      case True
      have v': "v' = real_of_int (Math_round ((of_int a + (s - target') / (s - s')) * 10)) / 10"
        using Suc.prems(5) findAgeLoop_hit[OF True, of a s rest] by (simp add: c c1)
      have pos: "0 < s - s'" using hit Suc.prems(3) by simp
      have "(s - target) / (s - s') \<le> (s - target') / (s - s')"
        using Suc.prems(2) pos by (intro divide_right_mono) simp_all
      then show ?thesis unfolding v v' by (intro round10_mono) simp
    next
      case False
      then have "findAgeLoop target' (survivalLoop t maxAge (a + 1) s') = Some v'"
        using Suc.prems(5) findAgeLoop_miss[OF False, of a s rest] by (simp add: c c1)
      then have "of_int (a + 1) \<le> v'"
        using findAgeLoop_survival_range[OF Suc.prems(1), of target' s' maxAge "a + 1" v'] False
        by simp
      moreover have "v \<le> of_int (a + 1)"
        unfolding v by (rule bracket_value_bounds(2)[OF hit Suc.prems(3)])
      ultimately show ?thesis by linarith
    qed
  next
    case miss: False
    then have m': "\<not> s' \<le> target'" using Suc.prems(2) by simp
    have 1: "findAgeLoop target (survivalLoop t maxAge (a + 1) s') = Some v"
      using Suc.prems(4) findAgeLoop_miss[OF miss, of a s rest] by (simp add: c c1)
    have 2: "findAgeLoop target' (survivalLoop t maxAge (a + 1) s') = Some v'"
      using Suc.prems(5) findAgeLoop_miss[OF m', of a s rest] by (simp add: c c1)
    show ?thesis
      using Suc.hyps(1)[OF n Suc.prems(1,2) _ 1 2] miss by simp
  qed
qed

lemma findAge_survival_mono:
  assumes "of_int a \<le> maxAge" "target' \<le> target" "target < 1"
  shows "\<exists>v v'. findAge (survivalLoop (lifeTable sex) maxAge a 1) target = Inr v \<and>
                findAge (survivalLoop (lifeTable sex) maxAge a 1) target' = Inr v' \<and>
                of_int a \<le> v \<and> v \<le> v' \<and> v' \<le> of_int \<lfloor>maxAge\<rfloor>"
proof -
  let ?c = "survivalLoop (lifeTable sex) maxAge a 1"
  note t = qxTable_lifeTable[of sex]
  have ne: "?c \<noteq> []" by (simp add: survivalLoop_unfold[OF assms(1)])
  have last: "of_int (SurvivalPoint.age (last ?c)) = (of_int \<lfloor>maxAge\<rfloor> :: real)"
    by (simp add: survivalLoop_last_age[OF assms(1)])
  have fl: "(of_int a :: real) \<le> of_int \<lfloor>maxAge\<rfloor>" using assms(1) by (simp add: le_floor_iff)
  have t'1: "target' < 1" using assms(2,3) by simp
  show ?thesis
  proof (cases "findAgeLoop target ?c")
    case None
    then have "findAgeLoop target' ?c = None" using findAgeLoop_None_mono[OF assms(2)] by blast
    then show ?thesis using None ne last fl by (simp add: findAge_def)
  next
    case (Some v)
    note r = findAgeLoop_survival_range[OF t assms(3) Some]
    show ?thesis
    proof (cases "findAgeLoop target' ?c")
      case None
      then show ?thesis using Some r ne last by (simp add: findAge_def)
    next
      case (Some v')
      note r' = findAgeLoop_survival_range[OF t t'1 Some]
      have "v \<le> v'"
        using findAgeLoop_survival_mono[OF t assms(2,3) \<open>findAgeLoop target ?c = Some v\<close> Some] .
      then show ?thesis using Some \<open>findAgeLoop target ?c = Some v\<close> r r' by (simp add: findAge_def)
    qed
  qed
qed

lemma round10_less:
  "x + 1 / 10 \<le> y \<Longrightarrow> real_of_int (Math_round (x * 10)) / 10 < real_of_int (Math_round (y * 10)) / 10"
proof -
  assume "x + 1 / 10 \<le> y"
  then have "x * 10 + 1 \<le> y * 10" by simp
  then have "Math_round (x * 10) < Math_round (y * 10)" by (rule Math_round_less)
  then show ?thesis by (simp add: divide_strict_right_mono)
qed

lemma bracket_ratio_ge:
  fixes d u :: real
  assumes "0 < d" "d \<le> 1" "0 \<le> u"
  shows "u \<le> u / d"
proof -
  have "u * d \<le> u * 1" using assms by (intro mult_left_mono) simp_all
  then show ?thesis using assms(1) by (simp add: le_divide_eq)
qed

lemma bracket_ratio_le:
  fixes d w :: real
  assumes "0 < d" "d \<le> 1" "w \<le> 0"
  shows "(d + w) / d \<le> 1 + w"
proof -
  have "(- w) * d \<le> (- w) * 1" using assms by (intro mult_left_mono) simp_all
  then have "w \<le> w * d" by simp
  then have "d + w \<le> (1 + w) * d" by (simp add: algebra_simps)
  then show ?thesis using assms(1) by (simp add: divide_le_eq)
qed

text \<open>
  The curve falls by at most 1 per year, so the unrounded age at which it crosses a target
  lies at least as far behind the start of the curve as the target lies below its first
  value.
\<close>

lemma findAgeLoop_survival_lower:
  "qxTable t \<Longrightarrow> 0 \<le> s \<Longrightarrow> s \<le> 1 \<Longrightarrow> target < s \<Longrightarrow>
   findAgeLoop target (survivalLoop t maxAge a s) = Some v \<Longrightarrow>
   \<exists>x. v = real_of_int (Math_round (x * 10)) / 10 \<and> of_int a + (s - target) \<le> x"
proof (induction "nat (\<lfloor>maxAge\<rfloor> - a)" arbitrary: a s)
  case 0
  then have "\<not> of_int a + 1 \<le> maxAge" by (simp add: le_floor_iff) linarith
  then have "survivalLoop t maxAge (a + 1) s' = []" for s'
    by (intro survivalLoop_empty) simp
  then have "findAgeLoop target (survivalLoop t maxAge a s) = None"
    by (cases "of_int a \<le> maxAge") (simp_all add: survivalLoop_unfold survivalLoop_empty)
  then show ?case using "0.prems" by simp
next
  case (Suc n)
  then have le: "of_int a + 1 \<le> maxAge" and n: "n = nat (\<lfloor>maxAge\<rfloor> - (a + 1))"
    by (simp_all add: le_floor_iff) linarith+
  have le0: "of_int a \<le> maxAge" and le1: "of_int (a + 1) \<le> maxAge" using le by simp_all
  define s' where "s' = s * (1 - interpolateQx t (of_int a))"
  define rest where "rest = survivalLoop t maxAge (a + 1 + 1) (s' * (1 - interpolateQx t (of_int (a + 1))))"
  have c: "survivalLoop t maxAge a s =
      \<lparr>SurvivalPoint.age = a, probability = s\<rparr> # survivalLoop t maxAge (a + 1) s'"
    unfolding s'_def by (rule survivalLoop_unfold[OF le0])
  have c1: "survivalLoop t maxAge (a + 1) s' =
      \<lparr>SurvivalPoint.age = a + 1, probability = s'\<rparr> # rest"
    unfolding rest_def by (rule survivalLoop_unfold[OF le1])
  have s': "0 \<le> s'" "s' \<le> s"
    unfolding s'_def using survivalLoop_step_le[OF Suc.prems(1,2)] by simp_all
  show ?case
  proof (cases "s' \<le> target")
    case True
    have v: "v = real_of_int (Math_round ((of_int a + (s - target) / (s - s')) * 10)) / 10"
      using Suc.prems(5) findAgeLoop_hit[OF True, of a s rest] by (simp add: c c1)
    have "s - target \<le> (s - target) / (s - s')"
      using True Suc.prems(3,4) s' by (intro bracket_ratio_ge) simp_all
    then show ?thesis using v by (intro exI[of _ "of_int a + (s - target) / (s - s')"]) simp
  next
    case False
    then have "findAgeLoop target (survivalLoop t maxAge (a + 1) s') = Some v"
      using Suc.prems(5) findAgeLoop_miss[OF False, of a s rest] by (simp add: c c1)
    moreover have "s' \<le> 1" "target < s'" using s'(2) Suc.prems(3) False by simp_all
    ultimately obtain x where x: "v = real_of_int (Math_round (x * 10)) / 10"
        "of_int (a + 1) + (s' - target) \<le> x"
      using Suc.hyps(1)[OF n Suc.prems(1) s'(1)] by blast
    have "of_int a + (s - target) \<le> x" using x(2) s' Suc.prems(3) by simp
    then show ?thesis using x(1) by blast
  qed
qed

text \<open>
  Two targets are crossed at unrounded ages that lie at least as far apart as the targets.
\<close>

lemma findAgeLoop_survival_apart:
  "qxTable t \<Longrightarrow> 0 \<le> s \<Longrightarrow> s \<le> 1 \<Longrightarrow> target' \<le> target \<Longrightarrow> target < s \<Longrightarrow>
   findAgeLoop target (survivalLoop t maxAge a s) = Some v \<Longrightarrow>
   findAgeLoop target' (survivalLoop t maxAge a s) = Some v' \<Longrightarrow>
   \<exists>x x'. v = real_of_int (Math_round (x * 10)) / 10 \<and>
           v' = real_of_int (Math_round (x' * 10)) / 10 \<and> x + (target - target') \<le> x'"
proof (induction "nat (\<lfloor>maxAge\<rfloor> - a)" arbitrary: a s)
  case 0
  then have "\<not> of_int a + 1 \<le> maxAge" by (simp add: le_floor_iff) linarith
  then have "survivalLoop t maxAge (a + 1) s' = []" for s'
    by (intro survivalLoop_empty) simp
  then have "findAgeLoop target (survivalLoop t maxAge a s) = None"
    by (cases "of_int a \<le> maxAge") (simp_all add: survivalLoop_unfold survivalLoop_empty)
  then show ?case using "0.prems" by simp
next
  case (Suc n)
  then have le: "of_int a + 1 \<le> maxAge" and n: "n = nat (\<lfloor>maxAge\<rfloor> - (a + 1))"
    by (simp_all add: le_floor_iff) linarith+
  have le0: "of_int a \<le> maxAge" and le1: "of_int (a + 1) \<le> maxAge" using le by simp_all
  define s' where "s' = s * (1 - interpolateQx t (of_int a))"
  define rest where "rest = survivalLoop t maxAge (a + 1 + 1) (s' * (1 - interpolateQx t (of_int (a + 1))))"
  have c: "survivalLoop t maxAge a s =
      \<lparr>SurvivalPoint.age = a, probability = s\<rparr> # survivalLoop t maxAge (a + 1) s'"
    unfolding s'_def by (rule survivalLoop_unfold[OF le0])
  have c1: "survivalLoop t maxAge (a + 1) s' =
      \<lparr>SurvivalPoint.age = a + 1, probability = s'\<rparr> # rest"
    unfolding rest_def by (rule survivalLoop_unfold[OF le1])
  have s': "0 \<le> s'" "s' \<le> s"
    unfolding s'_def using survivalLoop_step_le[OF Suc.prems(1,2)] by simp_all
  show ?case
  proof (cases "s' \<le> target")
    case hit: True
    define x where "x = of_int a + (s - target) / (s - s')"
    have v: "v = real_of_int (Math_round (x * 10)) / 10"
      unfolding x_def using Suc.prems(6) findAgeLoop_hit[OF hit, of a s rest] by (simp add: c c1)
    have d: "0 < s - s'" "s - s' \<le> 1" using hit Suc.prems(3,5) s' by simp_all
    show ?thesis
    proof (cases "s' \<le> target'")
      case True
      define x' where "x' = of_int a + (s - target') / (s - s')"
      have v': "v' = real_of_int (Math_round (x' * 10)) / 10"
        unfolding x'_def using Suc.prems(7) findAgeLoop_hit[OF True, of a s rest] by (simp add: c c1)
      have "target - target' \<le> (target - target') / (s - s')"
        using d Suc.prems(4) by (intro bracket_ratio_ge) simp_all
      also have "\<dots> = (s - target') / (s - s') - (s - target) / (s - s')"
        by (simp add: diff_divide_distrib[symmetric])
      finally have "x + (target - target') \<le> x'" by (simp add: x_def x'_def)
      then show ?thesis using v v' by blast
    next
      case False
      then have "findAgeLoop target' (survivalLoop t maxAge (a + 1) s') = Some v'"
        using Suc.prems(7) findAgeLoop_miss[OF False, of a s rest] by (simp add: c c1)
      moreover have "s' \<le> 1" "target' < s'" using s'(2) Suc.prems(3) False by simp_all
      ultimately obtain x' where x': "v' = real_of_int (Math_round (x' * 10)) / 10"
          "of_int (a + 1) + (s' - target') \<le> x'"
        using findAgeLoop_survival_lower[OF Suc.prems(1) s'(1)] by blast
      have "(s - s' + (s' - target)) / (s - s') \<le> 1 + (s' - target)"
        using d hit by (intro bracket_ratio_le) simp_all
      then have "(s - target) / (s - s') \<le> 1 + (s' - target)" by simp
      then have "x + (target - target') \<le> x'" using x'(2) by (simp add: x_def)
      then show ?thesis using v x'(1) by blast
    qed
  next
    case miss: False
    then have m': "\<not> s' \<le> target'" using Suc.prems(4) by simp
    have 1: "findAgeLoop target (survivalLoop t maxAge (a + 1) s') = Some v"
      using Suc.prems(6) findAgeLoop_miss[OF miss, of a s rest] by (simp add: c c1)
    have 2: "findAgeLoop target' (survivalLoop t maxAge (a + 1) s') = Some v'"
      using Suc.prems(7) findAgeLoop_miss[OF m', of a s rest] by (simp add: c c1)
    have s1: "s' \<le> 1" using s'(2) Suc.prems(3) by simp
    show ?thesis
      using Suc.hyps(1)[OF n Suc.prems(1) s'(1) s1 Suc.prems(4) _ 1 2] miss by simp
  qed
qed

text \<open>
  The default curve ends with the step from age 109 to age 110.  A target that is at least
  one minus the rate at 109 is crossed at the latest there, and a target that is at least
  one minus nine tenths of that rate is crossed at an unrounded age of at most 109.9.
\<close>

lemma survivalLoop_109:
  "survivalLoop t 110 109 s =
     [\<lparr>SurvivalPoint.age = 109, probability = s\<rparr>,
      \<lparr>SurvivalPoint.age = 110, probability = s * (1 - interpolateQx t 109)\<rparr>]"
  by (simp add: survivalLoop.simps)

lemma findAgeLoop_survival_found:
  "qxTable t \<Longrightarrow> 0 \<le> s \<Longrightarrow> s \<le> 1 \<Longrightarrow> a \<le> 109 \<Longrightarrow> 1 - interpolateQx t 109 \<le> target \<Longrightarrow>
   \<exists>v. findAgeLoop target (survivalLoop t 110 a s) = Some v"
proof (induction "nat (109 - a)" arbitrary: a s)
  case 0
  then have a: "a = 109" by simp
  have "s * (1 - interpolateQx t 109) \<le> 1 * (1 - interpolateQx t 109)"
    using "0.prems"(3) interpolateQx_range[OF "0.prems"(1), of 109] by (intro mult_right_mono) simp_all
  then have "s * (1 - interpolateQx t 109) \<le> target" using "0.prems"(5) by simp
  then have "findAgeLoop target (survivalLoop t 110 109 s) \<noteq> None"
    unfolding survivalLoop_109 by (simp add: Let_def)
  then show ?case unfolding a by blast
next
  case (Suc n)
  then have n: "n = nat (109 - (a + 1))" and a1: "a + 1 \<le> 109" by linarith+
  have le0: "of_int a \<le> (110::real)" and le1: "of_int (a + 1) \<le> (110::real)" using a1 by simp_all
  define s' where "s' = s * (1 - interpolateQx t (of_int a))"
  define rest where "rest = survivalLoop t 110 (a + 1 + 1) (s' * (1 - interpolateQx t (of_int (a + 1))))"
  have c: "survivalLoop t 110 a s =
      \<lparr>SurvivalPoint.age = a, probability = s\<rparr> # survivalLoop t 110 (a + 1) s'"
    unfolding s'_def by (rule survivalLoop_unfold[OF le0])
  have c1: "survivalLoop t 110 (a + 1) s' =
      \<lparr>SurvivalPoint.age = a + 1, probability = s'\<rparr> # rest"
    unfolding rest_def by (rule survivalLoop_unfold[OF le1])
  have s': "0 \<le> s'" "s' \<le> s"
    unfolding s'_def using survivalLoop_step_le[OF Suc.prems(1,2)] by simp_all
  show ?case
  proof (cases "s' \<le> target")
    case True
    show ?thesis unfolding c c1 findAgeLoop_hit[OF True] by blast
  next
    case False
    have s1: "s' \<le> 1" using s'(2) Suc.prems(3) by simp
    from Suc.hyps(1)[OF n Suc.prems(1) s'(1) s1 a1 Suc.prems(5)]
    show ?thesis using findAgeLoop_miss[OF False, of a s rest] by (simp add: c c1)
  qed
qed

lemma findAgeLoop_survival_before_end:
  "qxTable t \<Longrightarrow> 0 \<le> s \<Longrightarrow> s \<le> 1 \<Longrightarrow> target < s \<Longrightarrow> a \<le> 109 \<Longrightarrow>
   1 - 9 / 10 * interpolateQx t 109 \<le> target \<Longrightarrow>
   findAgeLoop target (survivalLoop t 110 a s) = Some v \<Longrightarrow>
   \<exists>x. v = real_of_int (Math_round (x * 10)) / 10 \<and> x + 1 / 10 \<le> 110"
proof (induction "nat (109 - a)" arbitrary: a s)
  case 0
  then have a: "a = 109" by simp
  define q where "q = interpolateQx t 109"
  have q: "0 \<le> q" "q \<le> 1" using interpolateQx_range[OF "0.prems"(1), of 109] by (simp_all add: q_def)
  have hit: "s * (1 - q) \<le> target"
    using "0.prems"(7) unfolding a survivalLoop_109 q_def by (simp add: Let_def split: if_splits)
  define x where "x = 109 + (s - target) / (s - s * (1 - q))"
  have v: "v = real_of_int (Math_round (x * 10)) / 10"
    using "0.prems"(7) hit unfolding a survivalLoop_109 q_def x_def by (simp add: Let_def)
  have pos: "0 < s - s * (1 - q)" using hit "0.prems"(4) by simp
  have "s * (1 - 9 / 10 * q) \<le> 1 * (1 - 9 / 10 * q)"
    using "0.prems"(3) q by (intro mult_right_mono) simp_all
  then have "s * (1 - 9 / 10 * q) \<le> target" using "0.prems"(6) by (simp add: q_def)
  then have "s - target \<le> 9 / 10 * (s - s * (1 - q))" by (simp add: algebra_simps)
  then have "(s - target) / (s - s * (1 - q)) \<le> 9 / 10"
    using pos by (simp add: divide_le_eq)
  then have "x + 1 / 10 \<le> 110" unfolding x_def by linarith
  then show ?case using v by blast
next
  case (Suc n)
  then have n: "n = nat (109 - (a + 1))" and a1: "a + 1 \<le> 109" by linarith+
  have le0: "of_int a \<le> (110::real)" and le1: "of_int (a + 1) \<le> (110::real)" using a1 by simp_all
  define s' where "s' = s * (1 - interpolateQx t (of_int a))"
  define rest where "rest = survivalLoop t 110 (a + 1 + 1) (s' * (1 - interpolateQx t (of_int (a + 1))))"
  have c: "survivalLoop t 110 a s =
      \<lparr>SurvivalPoint.age = a, probability = s\<rparr> # survivalLoop t 110 (a + 1) s'"
    unfolding s'_def by (rule survivalLoop_unfold[OF le0])
  have c1: "survivalLoop t 110 (a + 1) s' =
      \<lparr>SurvivalPoint.age = a + 1, probability = s'\<rparr> # rest"
    unfolding rest_def by (rule survivalLoop_unfold[OF le1])
  have s': "0 \<le> s'" "s' \<le> s"
    unfolding s'_def using survivalLoop_step_le[OF Suc.prems(1,2)] by simp_all
  show ?case
  proof (cases "s' \<le> target")
    case True
    define x where "x = of_int a + (s - target) / (s - s')"
    have v: "v = real_of_int (Math_round (x * 10)) / 10"
      unfolding x_def using Suc.prems(7) findAgeLoop_hit[OF True, of a s rest] by (simp add: c c1)
    have "(s - target) / (s - s') \<le> 1" using True Suc.prems(4) by simp
    moreover have "(of_int a :: real) \<le> 108" using a1 by simp
    ultimately have "x + 1 / 10 \<le> 110" by (simp add: x_def)
    then show ?thesis using v by blast
  next
    case False
    have s1: "s' \<le> 1" using s'(2) Suc.prems(3) by simp
    have 1: "findAgeLoop target (survivalLoop t 110 (a + 1) s') = Some v"
      using Suc.prems(7) findAgeLoop_miss[OF False, of a s rest] by (simp add: c c1)
    show ?thesis
      using Suc.hyps(1)[OF n Suc.prems(1) s'(1) s1 _ a1 Suc.prems(6) 1] False by simp
  qed
qed

lemma interpolateQx_109: "112 / 125 \<le> interpolateQx (lifeTable sex) 109"
  by (cases sex)
     (simp_all add: lifeTable_def interpolateQx_def LIFE_TABLE_QX_MALE_def LIFE_TABLE_QX_FEMALE_def)


text \<open>
  On the default curve from an age of at most 109, a target of at least 0.25 is found by
  the loop, and a target at least 0.1 lower gives a strictly higher rounded age, whether
  the loop finds it or falls through to the last age, 110.
\<close>

lemma findAge_survival_strict:
  assumes "a \<le> 109" "target' + 1 / 10 \<le> target" "1 / 4 \<le> target" "target < 1"
  shows "\<exists>v v'. findAge (survivalLoop (lifeTable sex) 110 a 1) target = Inr v \<and>
                findAge (survivalLoop (lifeTable sex) 110 a 1) target' = Inr v' \<and> v < v'"
proof -
  let ?c = "survivalLoop (lifeTable sex) 110 a 1"
  note t = qxTable_lifeTable[of sex]
  note q = interpolateQx_109[of sex]
  have le: "of_int a \<le> (110::real)" using assms(1) by simp
  have ne: "?c \<noteq> []" by (simp add: survivalLoop_unfold[OF le])
  have last: "of_int (SurvivalPoint.age (last ?c)) = (110::real)"
    by (simp add: survivalLoop_last_age[OF le])
  have "1 - interpolateQx (lifeTable sex) 109 \<le> target" using q assms(3) by simp
  then obtain v where v: "findAgeLoop target ?c = Some v"
    using findAgeLoop_survival_found[OF t _ _ assms(1), of 1 target] by auto
  have tt: "target' \<le> target" using assms(2) by simp
  show ?thesis
  proof (cases "findAgeLoop target' ?c")
    case None
    have "1 - 9 / 10 * interpolateQx (lifeTable sex) 109 \<le> target" using q assms(3) by simp
    then obtain x where x: "v = real_of_int (Math_round (x * 10)) / 10" "x + 1 / 10 \<le> 110"
      using findAgeLoop_survival_before_end[OF t _ _ assms(4) assms(1) _ v] by auto
    have "v < real_of_int (Math_round (of_int 110 * 10)) / 10"
      unfolding x(1) using x(2) by (intro round10_less) simp
    then have "v < 110" by (simp only: round10_int)
    then show ?thesis using v None ne last by (simp add: findAge_def)
  next
    case (Some v')
    obtain x x' where x: "v = real_of_int (Math_round (x * 10)) / 10"
        "v' = real_of_int (Math_round (x' * 10)) / 10" "x + (target - target') \<le> x'"
      using findAgeLoop_survival_apart[OF t _ _ tt assms(4) v Some] by auto
    have "x + 1 / 10 \<le> x'" using x(3) assms(2) by simp
    then have "v < v'" unfolding x(1,2) by (rule round10_less)
    then show ?thesis using v Some by (simp add: findAge_def)
  qed
qed

text \<open>
  Claim C2, as the code has it.  Whenever the survival curve is not empty (the floor of the
  current age is at most 110) the four percentile ages are returned, lie between the current
  age and 110, and are ordered: \<open>p25 \<le> p50 \<le> p75 \<le> p90\<close>.  Up to an age of 109 the
  order is strict; at 110 it is not.
\<close>

theorem percentiles_ordered:
  assumes "\<lfloor>currentAge\<rfloor> \<le> 110"
  shows "\<exists>r. computePercentiles currentAge sex = Inr r \<and>
             of_int \<lfloor>currentAge\<rfloor> \<le> p25 r \<and> p25 r \<le> p50 r \<and> p50 r \<le> p75 r \<and>
             p75 r \<le> p90 r \<and> p90 r \<le> 110 \<and>
             (\<lfloor>currentAge\<rfloor> \<le> 109 \<longrightarrow> p25 r < p50 r \<and> p50 r < p75 r \<and> p75 r < p90 r)"
proof -
  let ?c = "survivalLoop (lifeTable sex) 110 \<lfloor>currentAge\<rfloor> 1"
  have le: "of_int \<lfloor>currentAge\<rfloor> \<le> (110::real)" using assms by linarith
  obtain v1 v2 where 1: "findAge ?c (3 / 4) = Inr v1" "findAge ?c (1 / 2) = Inr v2"
      "of_int \<lfloor>currentAge\<rfloor> \<le> v1" "v1 \<le> v2"
    using findAge_survival_mono[OF le, of "1 / 2" "3 / 4" sex] by auto
  obtain v2' v3 where 2: "findAge ?c (1 / 2) = Inr v2'" "findAge ?c (1 / 4) = Inr v3" "v2' \<le> v3"
    using findAge_survival_mono[OF le, of "1 / 4" "1 / 2" sex] by auto
  obtain v3' v4 where 3: "findAge ?c (1 / 4) = Inr v3'" "findAge ?c (1 / 10) = Inr v4" "v3' \<le> v4"
      "v4 \<le> of_int \<lfloor>110::real\<rfloor>"
    using findAge_survival_mono[OF le, of "1 / 10" "1 / 4" sex] by auto
  have e: "v2' = v2" "v3' = v3" using 1 2 3 by simp_all
  have strict: "v1 < v2 \<and> v2 < v3 \<and> v3 < v4" if a: "\<lfloor>currentAge\<rfloor> \<le> 109"
  proof -
    have "v1 < v2" using findAge_survival_strict[OF a, of "1 / 2" "3 / 4" sex] 1 by simp
    moreover have "v2 < v3" using findAge_survival_strict[OF a, of "1 / 4" "1 / 2" sex] 1 2 by simp
    moreover have "v3 < v4" using findAge_survival_strict[OF a, of "1 / 10" "1 / 4" sex] 2 3 by simp
    ultimately show ?thesis by simp
  qed
  show ?thesis
    using 1 2 3 e strict
    by (simp add: computePercentiles_def computeSurvivalCurve_def defaultMaxAge_def)
qed

text \<open>Witness for C2: a newborn girl, the case of the module's own test.\<close>

theorem percentiles_ordered_witness:
  "\<lfloor>0::real\<rfloor> \<le> 110 \<and>
   (\<exists>r. computePercentiles 0 Female = Inr r \<and> p25 r < p50 r \<and> p50 r < p75 r \<and> p75 r < p90 r)"
  using percentiles_ordered[of 0 Female] by auto

text \<open>Beyond age 110 the curve is empty and \<open>findAge\<close> throws.\<close>

lemma percentiles_beyond_table:
  assumes "110 < \<lfloor>currentAge\<rfloor>"
  shows "computePercentiles currentAge sex = Inl TypeError"
proof -
  have "\<not> of_int \<lfloor>currentAge\<rfloor> \<le> (110::real)" using assms by linarith
  then have "computeSurvivalCurve currentAge sex defaultMaxAge = []"
    by (simp add: computeSurvivalCurve_def defaultMaxAge_def survivalLoop_empty)
  then show ?thesis by (simp add: computePercentiles_def findAge_def)
qed

text \<open>
  Counterexample to C2 as stated: at age 110 the curve is the single point \<open>(110, 1)\<close>,
  no point is at or below any target, and all four percentiles are the last age, 110.
\<close>

theorem percentiles_strict_counterexample:
  "computePercentiles 110 Female = Inr \<lparr>p25 = 110, p50 = 110, p75 = 110, p90 = 110\<rparr> \<and>
   \<not> (\<exists>r. computePercentiles 110 Female = Inr r \<and> p25 r < p50 r \<and> p50 r < p75 r \<and> p75 r < p90 r)"
proof -
  have "computeSurvivalCurve 110 Female defaultMaxAge = [\<lparr>SurvivalPoint.age = 110, probability = 1\<rparr>]"
    by (simp add: computeSurvivalCurve_def defaultMaxAge_def survivalLoop.simps)
  then have "computePercentiles 110 Female = Inr \<lparr>p25 = 110, p50 = 110, p75 = 110, p90 = 110\<rparr>"
    by (simp add: computePercentiles_def findAge_def)
  then show ?thesis by simp
qed

section \<open>Properties of the scenario diff\<close>

lemma netWorthAtOr0_missing:
  "monthStr \<notin> MonthlyProjection.month ` set projections \<Longrightarrow> netWorthAtOr0 projections monthStr = 0"
proof -
  assume "monthStr \<notin> MonthlyProjection.month ` set projections"
  then have "find (\<lambda>p. MonthlyProjection.month p = monthStr) projections = None"
    by (auto simp: find_None_iff)
  then show ?thesis by (simp add: netWorthAtOr0_def)
qed

text \<open>
  Claim C10.  When the target month label occurs in neither projection series, both
  look-ups of \<open>computeScenarioDiff\<close> fall back to 0 and the net worth at retirement is
  reported as \<open>a = 0\<close>, \<open>b = 0\<close>, \<open>delta = 0\<close>: no error and no absent field.
\<close>

theorem scenario_diff_missing_retirement_month:
  assumes "retirementMonth \<notin> MonthlyProjection.month ` set aProjections"
    and "retirementMonth \<notin> MonthlyProjection.month ` set bProjections"
  shows "netWorthAtRetirement
           (computeScenarioDiff aProjections bProjections aStress bStress retirementMonth) =
         \<lparr>side_a = 0, side_b = 0, delta = 0\<rparr>"
  using assms by (simp add: computeScenarioDiff_def Let_def netWorthAtOr0_missing)

text \<open>Witness for C10: two series that do not contain the month 2054-01.\<close>

theorem scenario_diff_missing_retirement_month_witness:
  "''2054-01'' \<notin> MonthlyProjection.month ` set [exampleProjection ''2024-01'' 100000] \<and>
   ''2054-01'' \<notin> MonthlyProjection.month ` set [exampleProjection ''2024-01'' 100000,
                                                  exampleProjection ''2024-02'' 800000] \<and>
   netWorthAtRetirement
     (computeScenarioDiff [exampleProjection ''2024-01'' 100000]
        [exampleProjection ''2024-01'' 100000, exampleProjection ''2024-02'' 800000] [] []
        ''2054-01'') =
   \<lparr>side_a = 0, side_b = 0, delta = 0\<rparr>"
proof -
  have 1: "''2054-01'' \<notin> MonthlyProjection.month ` set [exampleProjection ''2024-01'' 100000]"
    by (simp add: exampleProjection_def)
  have 2: "''2054-01'' \<notin> MonthlyProjection.month ` set [exampleProjection ''2024-01'' 100000,
                                                  exampleProjection ''2024-02'' 800000]"
    by (simp add: exampleProjection_def)
  show ?thesis
    using 1 2 scenario_diff_missing_retirement_month[OF 1 2, of "[]" "[]"] by blast
qed

section \<open>Properties of the timeline coordinates\<close>





section \<open>Properties of the financial projection\<close>


















section \<open>Properties of the debt payoff engine\<close>

subsection \<open>The pooled extra payment\<close>

lemma payExtra_fst:
  "fst (payExtra i ex (debts, sched)) =
     debts[i := (debts ! i)\<lparr>balance := balance (debts ! i) - ex, totalPaid := totalPaid (debts ! i) + ex\<rparr>]"
  by (simp add: payExtra_def Let_def)

lemma allocateExtra_length: "length (fst (allocateExtra r targets st)) = length (fst st)"
proof (induction r targets st rule: allocateExtra.induct)
  case (2 remaining i rest st)
  then show ?case by (cases st) (auto simp: payExtra_fst)
qed simp






lemma poolTargets_set:
  "set (poolTargets debts active) = {i \<in> set active. 0.01 < balance (debts ! i)}"
  by (auto simp: poolTargets_def Let_def)







subsection \<open>Cumulative totals\<close>

lemma totalsGrow_refl: "totalsGrow ds ds"
  by (simp add: totalsGrow_def)

lemma totalsGrow_trans: "totalsGrow a b \<Longrightarrow> totalsGrow b c \<Longrightarrow> totalsGrow a c"
  unfolding totalsGrow_def by (metis order_trans)

lemma grows_refl: "grows ds ds"
  by (simp add: grows_def totalsGrow_refl)

lemma grows_trans: "grows a b \<Longrightarrow> grows b c \<Longrightarrow> grows a c"
  unfolding grows_def using totalsGrow_trans by blast

lemma grows_update:
  assumes "debtsSane ds \<Longrightarrow> i < length ds \<Longrightarrow>
           0 \<le> balance d' \<and> 0 \<le> rate d' \<and> 0 \<le> minimum d' \<and>
           totalInterest (ds ! i) \<le> totalInterest d' \<and> totalPaid (ds ! i) \<le> totalPaid d'"
  shows "grows ds (ds[i := d'])"
proof (cases "i < length ds")
  case True
  show ?thesis
    unfolding grows_def
  proof (intro impI conjI)
    assume s: "debtsSane ds"
    note a = assms[OF s True]
    show "debtsSane (ds[i := d'])"
      using s a unfolding debtsSane_def by (auto dest!: set_update_subset_insert[THEN subsetD])
    show "totalsGrow ds (ds[i := d'])"
      using a True unfolding totalsGrow_def by (auto simp: nth_list_update)
  qed
next
  case False
  then show ?thesis by (simp add: grows_refl list_update_beyond)
qed

lemma sane_nth: "debtsSane ds \<Longrightarrow> i < length ds \<Longrightarrow> 0 \<le> balance (ds ! i) \<and> 0 \<le> rate (ds ! i) \<and> 0 \<le> minimum (ds ! i)"
  by (simp add: debtsSane_def)

lemma grows_chargeInterest: "grows ds (chargeInterest i ds)"
  unfolding chargeInterest_def Let_def
  by (rule grows_update) (auto dest: sane_nth)

lemma grows_payExtra:
  assumes "0 \<le> ex" "i < length (fst st) \<Longrightarrow> ex \<le> balance (fst st ! i)"
  shows "grows (fst st) (fst (payExtra i ex st))"
proof -
  obtain debts sched where st: "st = (debts, sched)" by (cases st)
  show ?thesis
    unfolding st payExtra_fst fst_conv
    using assms by (intro grows_update) (auto dest: sane_nth simp: st)
qed

lemma grows_payMinimum: "grows (fst st) (fst (payMinimum monthStr i st))"
proof -
  obtain debts sched where st: "st = (debts, sched)" by (cases st)
  have "fst (payMinimum monthStr i st) =
      debts[i := (debts ! i)\<lparr>balance := balance (debts ! i) - min (minimum (debts ! i)) (balance (debts ! i)),
                              totalPaid := totalPaid (debts ! i) + min (minimum (debts ! i)) (balance (debts ! i))\<rparr>]"
    by (simp add: st payMinimum_def Let_def)
  then show ?thesis
    unfolding st fst_conv by (simp only:) (rule grows_update, auto dest: sane_nth)
qed

lemma grows_markPaidOff: "grows ds (markPaidOff monthStr m i ds)"
  unfolding markPaidOff_def Let_def
  by (auto intro!: grows_update simp: grows_refl dest: sane_nth)

lemma grows_ownExtra: "grows (fst st) (fst (ownExtra i st))"
  unfolding ownExtra_def Let_def
  by (auto simp: grows_refl intro!: grows_payExtra)

lemma grows_fold:
  assumes "\<And>i ds. grows ds (f i ds)"
  shows "grows ds (fold f is ds)"
proof (induction "is" arbitrary: ds)
  case Nil
  show ?case by (simp add: grows_refl)
next
  case (Cons i "is")
  show ?case using grows_trans[OF assms[of ds i] Cons[of "f i ds"]] by simp
qed

lemma grows_fold_state:
  assumes "\<And>i st. grows (fst st) (fst (f i st))"
  shows "grows (fst st) (fst (fold f is st))"
proof (induction "is" arbitrary: st)
  case Nil
  show ?case by (simp add: grows_refl)
next
  case (Cons i "is")
  show ?case using grows_trans[OF assms[of st i] Cons[of "f i st"]] by simp
qed

lemma grows_allocateExtra: "grows (fst st) (fst (allocateExtra r targets st))"
proof (induction r targets st rule: allocateExtra.induct)
  case (1 remaining st)
  show ?case by (simp add: grows_refl)
next
  case (2 remaining i rest st)
  show ?case
  proof (cases "remaining \<le> 0")
    case True
    then show ?thesis by (simp add: grows_refl)
  next
    case False
    have g: "grows (fst st) (fst (payExtra i (min remaining (balance (fst st ! i))) st))"
      unfolding grows_def
    proof
      assume s: "debtsSane (fst st)"
      show "debtsSane (fst (payExtra i (min remaining (balance (fst st ! i))) st)) \<and>
            totalsGrow (fst st) (fst (payExtra i (min remaining (balance (fst st ! i))) st))"
      proof (cases "i < length (fst st)")
        case True
        then have "0 \<le> min remaining (balance (fst st ! i))" using False sane_nth[OF s True] by simp
        then show ?thesis using grows_payExtra[of "min remaining (balance (fst st ! i))" i st] s
          by (simp add: grows_def)
      next
        case nr: False
        obtain debts sched where st: "st = (debts, sched)" by (cases st)
        have "fst (payExtra i (min remaining (balance (fst st ! i))) st) = fst st"
          using nr by (simp add: st payExtra_fst list_update_beyond)
        then show ?thesis using s by (simp add: totalsGrow_refl)
      qed
    qed
    show ?thesis using grows_trans[OF g "2.IH"[OF False]] False by simp
  qed
qed

lemma grows_applyExtras: "grows (fst st) (fst (applyExtras pooled budget active st))"
  unfolding applyExtras_def
  by (auto intro: grows_allocateExtra grows_fold_state grows_ownExtra)

lemma grows_monthStep: "grows (fst st) (fst (monthStep pooled budget monthStr m active st))"
proof -
  let ?st1 = "(fold chargeInterest active (fst st), snd st)"
  let ?st2 = "fold (payMinimum monthStr) active ?st1"
  let ?st3 = "applyExtras pooled budget active ?st2"
  have 1: "grows (fst st) (fst ?st1)" by (simp add: grows_fold grows_chargeInterest)
  have 2: "grows (fst ?st1) (fst ?st2)" by (rule grows_fold_state) (rule grows_payMinimum)
  have 3: "grows (fst ?st2) (fst ?st3)" by (rule grows_applyExtras)
  have 4: "grows (fst ?st3) (fold (markPaidOff monthStr m) active (fst ?st3))"
    by (rule grows_fold) (rule grows_markPaidOff)
  show ?thesis
    using grows_trans[OF grows_trans[OF grows_trans[OF 1 2] 3] 4]
    by (simp add: monthStep_def Let_def)
qed

lemma grows_payoffLoop: "grows (fst st) (fst (payoffLoop maxMonths earliest pooled budget m st))"
proof (induction maxMonths earliest pooled budget m st rule: payoffLoop.induct)
  case (1 maxMonths earliest pooled budget m st)
  show ?case
  proof (cases "m < maxMonths \<and> activeDebts (fst st) (addMonths earliest m) \<noteq> []")
    case True
    then have a: "m < maxMonths" "activeDebts (fst st) (addMonths earliest m) \<noteq> []" by simp_all
    show ?thesis
      using grows_trans[OF grows_monthStep "1.IH"[OF a]] a
      by (subst payoffLoop.simps) simp
  next
    case False
    then show ?thesis by (subst payoffLoop.simps) (auto simp: grows_refl)
  qed
qed

lemma payoffLoop_cap:
  "m \<le> n \<Longrightarrow> n \<le> n' \<Longrightarrow>
   payoffLoop n' earliest pooled budget m st = payoffLoop n earliest pooled budget m st \<or>
   payoffLoop n' earliest pooled budget m st =
     payoffLoop n' earliest pooled budget n (payoffLoop n earliest pooled budget m st)"
proof (induction n earliest pooled budget m st rule: payoffLoop.induct)
  case (1 n earliest pooled budget m st)
  show ?case
  proof (cases "m < n")
    case True
    then have m': "m < n'" using "1.prems" by simp
    show ?thesis
    proof (cases "activeDebts (fst st) (addMonths earliest m) = []")
      case e: True
      have "payoffLoop n' earliest pooled budget m st = st" using m' e by (subst payoffLoop.simps) simp
      moreover have "payoffLoop n earliest pooled budget m st = st" using True e by (subst payoffLoop.simps) simp
      ultimately show ?thesis by simp
    next
      case ne: False
      let ?st' = "monthStep pooled budget (format_yyyy_MM (addMonths earliest m)) m
                      (activeDebts (fst st) (addMonths earliest m)) st"
      have a: "payoffLoop n' earliest pooled budget m st = payoffLoop n' earliest pooled budget (m + 1) ?st'"
        using m' ne by (subst payoffLoop.simps) simp
      have b: "payoffLoop n earliest pooled budget m st = payoffLoop n earliest pooled budget (m + 1) ?st'"
        using True ne by (subst payoffLoop.simps) simp
      have "m + 1 \<le> n" using True by simp
      then show ?thesis using "1.IH"[OF True ne _ "1.prems"(2)] a b by simp
    qed
  next
    case False
    then have "m = n" using "1.prems"(1) by simp
    moreover have "payoffLoop n earliest pooled budget m st = st" using False by (subst payoffLoop.simps) simp
    ultimately show ?thesis by simp
  qed
qed

lemma initDebt_sane: "plansSane plans \<Longrightarrow> debtsSane (map initDebt plans)"
  by (auto simp: plansSane_def debtsSane_def initDebt_def)

lemma payoffRun_sane: "plansSane plans \<Longrightarrow> debtsSane (fst (payoffRun plans n))"
  using grows_payoffLoop[of "(map initDebt plans, [])"] initDebt_sane
  by (simp add: payoffRun_def Let_def grows_def)

lemma payoffRun_totals_grow:
  assumes "plansSane plans" "n \<le> n'"
  shows "totalsGrow (fst (payoffRun plans n)) (fst (payoffRun plans n'))"
proof -
  let ?ds = "map initDebt plans"
  let ?L = "\<lambda>k m st. payoffLoop k (earliestStart ?ds) (isPooled ?ds) (totalExtraBudget ?ds) m st"
  have s: "debtsSane (fst (?L n 0 (?ds, [])))"
    using payoffRun_sane[OF assms(1), of n] by (simp add: payoffRun_def Let_def)
  from payoffLoop_cap[of 0 n n' "earliestStart ?ds" "isPooled ?ds" "totalExtraBudget ?ds" "(?ds, [])"]
  consider "?L n' 0 (?ds, []) = ?L n 0 (?ds, [])" | "?L n' 0 (?ds, []) = ?L n' n (?L n 0 (?ds, []))"
    using assms(2) by blast
  then have "totalsGrow (fst (?L n 0 (?ds, []))) (fst (?L n' 0 (?ds, [])))"
  proof cases
    case 1
    then show ?thesis by (simp add: totalsGrow_refl)
  next
    case 2
    show ?thesis unfolding 2 using grows_payoffLoop[of "?L n 0 (?ds, [])"] s by (simp add: grows_def)
  qed
  then show ?thesis by (simp add: payoffRun_def Let_def)
qed

subsection \<open>The last schedule entry of a debt\<close>

lemma lastEntryIndex_Some:
  assumes "lastEntryIndex i sched = Some k"
  shows "k < length sched" "DebtPayoffMonth.debtId (sched ! k) = i"
proof -
  from assms obtain n where n: "n < length (rev [0..<length sched])"
      "DebtPayoffMonth.debtId (sched ! (rev [0..<length sched] ! n)) = i"
      "k = rev [0..<length sched] ! n"
    unfolding lastEntryIndex_def find_Some_iff by blast
  have "k \<in> set (rev [0..<length sched])" unfolding n(3) using n(1) by (rule nth_mem)
  then show "k < length sched" by simp
  show "DebtPayoffMonth.debtId (sched ! k) = i" using n(2,3) by simp
qed

lemma lastEntryIndex_cong:
  assumes "map DebtPayoffMonth.debtId s1 = map DebtPayoffMonth.debtId s2"
  shows "lastEntryIndex i s1 = lastEntryIndex i s2"
proof -
  have len: "length s1 = length s2" using assms by (metis length_map)
  have "DebtPayoffMonth.debtId (s1 ! k) = DebtPayoffMonth.debtId (s2 ! k)" if "k < length s1" for k
    using assms that len by (metis nth_map)
  then show ?thesis
    unfolding lastEntryIndex_def len[symmetric]
    by (intro find_cong) auto
qed

lemma lastEntryIndex_update:
  assumes "k < length sched" "DebtPayoffMonth.debtId e' = DebtPayoffMonth.debtId (sched ! k)"
  shows "lastEntryIndex i (sched[k := e']) = lastEntryIndex i sched"
proof -
  have "map DebtPayoffMonth.debtId (sched[k := e']) = map DebtPayoffMonth.debtId sched"
    using assms by (simp add: map_update list_update_same_conv)
  then show ?thesis by (rule lastEntryIndex_cong)
qed

lemma lastEntryIndex_append:
  "lastEntryIndex i (sched @ [e]) =
     (if DebtPayoffMonth.debtId e = i then Some (length sched) else lastEntryIndex i sched)"
proof -
  have "find (\<lambda>k. DebtPayoffMonth.debtId ((sched @ [e]) ! k) = i) (rev [0..<length sched]) =
        find (\<lambda>k. DebtPayoffMonth.debtId (sched ! k) = i) (rev [0..<length sched])"
    by (intro find_cong) (auto simp: nth_append)
  then show ?thesis by (simp add: lastEntryIndex_def)
qed

lemma lastEntry_append:
  "lastEntry i (sched @ [e]) =
     (if DebtPayoffMonth.debtId e = i then Some e else lastEntry i sched)"
proof (cases "DebtPayoffMonth.debtId e = i")
  case True
  then show ?thesis by (simp add: lastEntry_def lastEntryIndex_append)
next
  case False
  show ?thesis
  proof (cases "lastEntryIndex i sched")
    case None
    then show ?thesis using False by (simp add: lastEntry_def lastEntryIndex_append)
  next
    case (Some k)
    then have "k < length sched" by (rule lastEntryIndex_Some)
    then show ?thesis using False Some by (simp add: lastEntry_def lastEntryIndex_append nth_append)
  qed
qed

lemma lastEntry_bump:
  "lastEntry i (bumpLastEntry j ex nb sched) =
     (if j = i
      then map_option (\<lambda>e. e\<lparr>payment := payment e + ex, principalPaid := principalPaid e + ex,
                              endingBalance := round2 nb, isPaidOff := (nb \<le> 0.01)\<rparr>)
             (lastEntry i sched)
      else lastEntry i sched)"
proof (cases "lastEntryIndex j sched")
  case None
  then show ?thesis by (auto simp: bumpLastEntry_def lastEntry_def)
next
  case (Some k)
  note k = lastEntryIndex_Some[OF Some]
  let ?e' = "(sched ! k)\<lparr>payment := payment (sched ! k) + ex,
                          principalPaid := principalPaid (sched ! k) + ex,
                          endingBalance := round2 nb, isPaidOff := (nb \<le> 0.01)\<rparr>"
  have b: "bumpLastEntry j ex nb sched = sched[k := ?e']" using Some by (simp add: bumpLastEntry_def)
  have idx: "lastEntryIndex i (sched[k := e']) = lastEntryIndex i sched"
    if "DebtPayoffMonth.debtId e' = DebtPayoffMonth.debtId (sched ! k)" for e'
    using lastEntryIndex_update[OF k(1) that] .
  show ?thesis
  proof (cases "j = i")
    case True
    show ?thesis unfolding b using True Some k by (simp add: lastEntry_def idx)
  next
    case False
    show ?thesis
    proof (cases "lastEntryIndex i sched")
      case None
      show ?thesis unfolding b using None False by (simp add: lastEntry_def idx)
    next
      case s: (Some k')
      have "k' \<noteq> k" using lastEntryIndex_Some(2)[OF s] k(2) False by auto
      then show ?thesis unfolding b using False s by (simp add: lastEntry_def idx)
    qed
  qed
qed


lemma map_update_same: "f d' = f (ds ! j) \<Longrightarrow> map f (ds[j := d']) = map f ds"
  by (cases "j < length ds") (simp_all add: map_update list_update_same_conv list_update_beyond)

lemma frame_refl: "frame i st st"
  by (simp add: frame_def)

lemma frame_trans: "frame i a b \<Longrightarrow> frame i b c \<Longrightarrow> frame i a c"
  by (simp add: frame_def)

lemma frame_sync: "frame i a b \<Longrightarrow> sync monthStr i a \<Longrightarrow> sync monthStr i b"
  by (simp add: frame_def sync_def)

lemma frame_ident: "frame i a b \<Longrightarrow> map ident (fst b) = map ident (fst a)"
  by (simp add: frame_def)

lemma distinct_ident_neq:
  assumes "distinct (map ident ds)" "i < length ds" "j < length ds" "j \<noteq> i"
  shows "ident (ds ! j) \<noteq> ident (ds ! i)"
  using assms by (metis distinct_conv_nth length_map nth_map)

text \<open>Steps 1 and 4 act on one debt of the array.\<close>

lemma chargeInterest_static:
  "map ident (chargeInterest j ds) = map ident ds"
  "map paidOff (chargeInterest j ds) = map paidOff ds"
  by (simp_all add: chargeInterest_def Let_def map_update_same)

lemma chargeInterest_other: "j \<noteq> i \<Longrightarrow> chargeInterest j ds ! i = ds ! i"
  by (simp add: chargeInterest_def Let_def)

lemma fold_chargeInterest_static:
  "map ident (fold chargeInterest js ds) = map ident ds"
  "map paidOff (fold chargeInterest js ds) = map paidOff ds"
  by (induction js arbitrary: ds) (simp_all add: chargeInterest_static)

lemma fold_chargeInterest_other: "i \<notin> set js \<Longrightarrow> fold chargeInterest js ds ! i = ds ! i"
  by (induction js arbitrary: ds) (simp_all add: chargeInterest_other)

lemma markPaidOff_ident: "map ident (markPaidOff monthStr m j ds) = map ident ds"
  by (simp add: markPaidOff_def Let_def map_update_same)

lemma markPaidOff_other: "j \<noteq> i \<Longrightarrow> markPaidOff monthStr m j ds ! i = ds ! i"
  by (simp add: markPaidOff_def Let_def)

lemma fold_markPaidOff_ident: "map ident (fold (markPaidOff monthStr m) js ds) = map ident ds"
  by (induction js arbitrary: ds) (simp_all add: markPaidOff_ident)

lemma fold_markPaidOff_other:
  "i \<notin> set js \<Longrightarrow> fold (markPaidOff monthStr m) js ds ! i = ds ! i"
  by (induction js arbitrary: ds) (simp_all add: markPaidOff_other)

lemma fold_markPaidOff_active:
  "i \<in> set js \<Longrightarrow> distinct js \<Longrightarrow> i < length ds \<Longrightarrow>
   fold (markPaidOff monthStr m) js ds ! i =
     (if balance (ds ! i) \<le> 0.01 \<and> \<not> paidOff (ds ! i)
      then (ds ! i)\<lparr>paidOff := True, balance := 0, payoffMonth := monthStr,
                     monthsToPayoff := m + 1\<rparr>
      else ds ! i)"
proof (induction js arbitrary: ds)
  case Nil
  then show ?case by simp
next
  case (Cons j js)
  show ?case
  proof (cases "j = i")
    case True
    then have "i \<notin> set js" using Cons.prems(2) by simp
    then have A: "fold (markPaidOff monthStr m) (j # js) ds ! i = markPaidOff monthStr m i ds ! i"
      using True by (simp add: fold_markPaidOff_other)
    have B: "markPaidOff monthStr m i ds ! i =
        (if balance (ds ! i) \<le> 0.01 \<and> \<not> paidOff (ds ! i)
         then (ds ! i)\<lparr>paidOff := True, balance := 0, payoffMonth := monthStr,
                        monthsToPayoff := m + 1\<rparr>
         else ds ! i)"
      using Cons.prems(3) by (simp add: markPaidOff_def Let_def)
    show ?thesis unfolding A B ..
  next
    case False
    then have "i \<in> set js" "distinct js" using Cons.prems(1,2) by simp_all
    moreover have "i < length (markPaidOff monthStr m j ds)"
      using Cons.prems(3) by (metis length_map markPaidOff_ident)
    ultimately have "fold (markPaidOff monthStr m) js (markPaidOff monthStr m j ds) ! i =
        (if balance (markPaidOff monthStr m j ds ! i) \<le> 0.01 \<and> \<not> paidOff (markPaidOff monthStr m j ds ! i)
         then (markPaidOff monthStr m j ds ! i)\<lparr>paidOff := True, balance := 0, payoffMonth := monthStr,
                        monthsToPayoff := m + 1\<rparr>
         else markPaidOff monthStr m j ds ! i)"
      by (rule Cons.IH)
    then show ?thesis unfolding markPaidOff_other[OF False] by simp
  qed
qed

text \<open>Steps 2 and 3 act on one debt and on the schedule entries of its id.\<close>

lemma payMinimum_static:
  "map ident (fst (payMinimum monthStr j st)) = map ident (fst st)"
  "map paidOff (fst (payMinimum monthStr j st)) = map paidOff (fst st)"
  by (cases st; simp add: payMinimum_def Let_def map_update_same)+

lemma payMinimum_frame:
  assumes "j \<noteq> i" "j < length (fst st)" "i < length (fst st)" "distinct (map ident (fst st))"
  shows "frame i st (payMinimum monthStr j st)"
proof -
  obtain ds sched where st: "st = (ds, sched)" by (cases st)
  have ne: "ident (ds ! j) \<noteq> ident (ds ! i)"
    using distinct_ident_neq[of ds i j] assms by (simp add: st)
  show ?thesis
    unfolding frame_def payMinimum_static
    using assms(1) ne by (simp add: st payMinimum_def Let_def lastEntry_append)
qed

lemma payMinimum_sync:
  assumes "i < length (fst st)"
  shows "sync monthStr i (payMinimum monthStr i st)"
proof -
  obtain ds sched where st: "st = (ds, sched)" by (cases st)
  show ?thesis
    using assms by (simp add: st sync_def payMinimum_def Let_def lastEntry_append entrySync_def)
qed

lemma payExtra_static:
  "map ident (fst (payExtra j ex st)) = map ident (fst st)"
  "map paidOff (fst (payExtra j ex st)) = map paidOff (fst st)"
  by (cases st; simp add: payExtra_fst map_update_same)+

lemma payExtra_snd:
  "snd (payExtra j ex (ds, sched)) =
     bumpLastEntry (ident (ds ! j)) ex (balance (ds ! j) - ex) sched"
  by (simp add: payExtra_def Let_def)

lemma payExtra_frame:
  assumes "j \<noteq> i" "j < length (fst st)" "i < length (fst st)" "distinct (map ident (fst st))"
  shows "frame i st (payExtra j ex st)"
proof -
  obtain ds sched where st: "st = (ds, sched)" by (cases st)
  have ne: "ident (ds ! j) \<noteq> ident (ds ! i)"
    using distinct_ident_neq[of ds i j] assms by (simp add: st)
  show ?thesis
    unfolding frame_def payExtra_static
    using assms(1) ne by (simp add: st payExtra_fst payExtra_snd lastEntry_bump)
qed

lemma payExtra_sync:
  assumes "sync monthStr i st" "j < length (fst st)" "i < length (fst st)"
    "distinct (map ident (fst st))"
  shows "sync monthStr i (payExtra j ex st)"
proof (cases "j = i")
  case False
  then show ?thesis using frame_sync[OF payExtra_frame[OF False assms(2,3,4)] assms(1)] by simp
next
  case True
  obtain ds sched where st: "st = (ds, sched)" by (cases st)
  from assms(1) obtain e where e: "lastEntry (ident (ds ! i)) sched = Some e"
      "entrySync monthStr (ds ! i) e"
    by (auto simp: sync_def st)
  show ?thesis
    using e assms(3) True
    by (simp add: st sync_def payExtra_fst payExtra_snd lastEntry_bump entrySync_def)
qed


lemma fold_payMinimum_static:
  "map ident (fst (fold (payMinimum monthStr) js st)) = map ident (fst st)"
  "map paidOff (fst (fold (payMinimum monthStr) js st)) = map paidOff (fst st)"
  by (induction js arbitrary: st) (simp_all add: payMinimum_static)

lemma fold_payMinimum_frame:
  "i \<notin> set js \<Longrightarrow> \<forall>j \<in> set js. j < length (fst st) \<Longrightarrow> i < length (fst st) \<Longrightarrow>
   distinct (map ident (fst st)) \<Longrightarrow> frame i st (fold (payMinimum monthStr) js st)"
proof (induction js arbitrary: st)
  case Nil
  show ?case by (simp add: frame_refl)
next
  case (Cons j js)
  have f: "frame i st (payMinimum monthStr j st)"
    using Cons.prems by (intro payMinimum_frame) auto
  have len: "length (fst (payMinimum monthStr j st)) = length (fst st)"
    by (metis length_map payMinimum_static(1))
  have "frame i (payMinimum monthStr j st) (fold (payMinimum monthStr) js (payMinimum monthStr j st))"
    using Cons.prems by (intro Cons.IH) (simp_all add: len payMinimum_static)
  then show ?case using frame_trans[OF f] by simp
qed

lemma fold_payMinimum_sync:
  "i \<in> set js \<Longrightarrow> distinct js \<Longrightarrow> \<forall>j \<in> set js. j < length (fst st) \<Longrightarrow>
   distinct (map ident (fst st)) \<Longrightarrow> sync monthStr i (fold (payMinimum monthStr) js st)"
proof (induction js arbitrary: st)
  case Nil
  then show ?case by simp
next
  case (Cons j js)
  have len: "length (fst (payMinimum monthStr j st)) = length (fst st)"
    by (metis length_map payMinimum_static(1))
  show ?case
  proof (cases "j = i")
    case True
    have i: "i < length (fst st)" using Cons.prems(3) True by simp
    have s: "sync monthStr i (payMinimum monthStr i st)" by (rule payMinimum_sync[OF i])
    have len': "length (fst (payMinimum monthStr i st)) = length (fst st)" using len True by simp
    have "frame i (payMinimum monthStr i st) (fold (payMinimum monthStr) js (payMinimum monthStr i st))"
      using Cons.prems True i by (intro fold_payMinimum_frame) (simp_all add: len' payMinimum_static)
    then show ?thesis using frame_sync[OF _ s] True by simp
  next
    case False
    then have "sync monthStr i (fold (payMinimum monthStr) js (payMinimum monthStr j st))"
      using Cons.prems by (intro Cons.IH) (simp_all add: len payMinimum_static)
    then show ?thesis by simp
  qed
qed

lemma allocateExtra_static:
  "map ident (fst (allocateExtra r targets st)) = map ident (fst st)"
  "map paidOff (fst (allocateExtra r targets st)) = map paidOff (fst st)"
  by (induction r targets st rule: allocateExtra.induct) (simp_all add: payExtra_static)

lemma allocateExtra_frame:
  "i \<notin> set targets \<Longrightarrow> \<forall>j \<in> set targets. j < length (fst st) \<Longrightarrow> i < length (fst st) \<Longrightarrow>
   distinct (map ident (fst st)) \<Longrightarrow> frame i st (allocateExtra r targets st)"
proof (induction r targets st rule: allocateExtra.induct)
  case (1 remaining st)
  show ?case by (simp add: frame_refl)
next
  case (2 remaining j rest st)
  show ?case
  proof (cases "remaining \<le> 0")
    case True
    then show ?thesis by (simp add: frame_refl)
  next
    case False
    let ?st' = "payExtra j (min remaining (balance (fst st ! j))) st"
    have f: "frame i st ?st'" using "2.prems" by (intro payExtra_frame) auto
    have len: "length (fst ?st') = length (fst st)" by (metis length_map payExtra_static(1))
    have "frame i ?st' (allocateExtra (remaining - min remaining (balance (fst st ! j))) rest ?st')"
      using "2.prems" by (intro "2.IH"[OF False]) (simp_all add: len payExtra_static)
    then show ?thesis using frame_trans[OF f] False by simp
  qed
qed

lemma allocateExtra_sync:
  "sync monthStr i st \<Longrightarrow> \<forall>j \<in> set targets. j < length (fst st) \<Longrightarrow> i < length (fst st) \<Longrightarrow>
   distinct (map ident (fst st)) \<Longrightarrow> sync monthStr i (allocateExtra r targets st)"
proof (induction r targets st rule: allocateExtra.induct)
  case (1 remaining st)
  then show ?case by simp
next
  case (2 remaining j rest st)
  show ?case
  proof (cases "remaining \<le> 0")
    case True
    then show ?thesis using "2.prems"(1) by simp
  next
    case False
    let ?st' = "payExtra j (min remaining (balance (fst st ! j))) st"
    have s: "sync monthStr i ?st'" using "2.prems" by (intro payExtra_sync) auto
    have len: "length (fst ?st') = length (fst st)" by (metis length_map payExtra_static(1))
    have "sync monthStr i (allocateExtra (remaining - min remaining (balance (fst st ! j))) rest ?st')"
      using "2.prems" s by (intro "2.IH"[OF False]) (simp_all add: len payExtra_static)
    then show ?thesis using False by simp
  qed
qed

lemma ownExtra_static:
  "map ident (fst (ownExtra j st)) = map ident (fst st)"
  "map paidOff (fst (ownExtra j st)) = map paidOff (fst st)"
  by (simp_all add: ownExtra_def Let_def payExtra_static)

lemma ownExtra_frame:
  assumes "j \<noteq> i" "j < length (fst st)" "i < length (fst st)" "distinct (map ident (fst st))"
  shows "frame i st (ownExtra j st)"
  using payExtra_frame[OF assms] by (simp add: ownExtra_def Let_def frame_refl)

lemma ownExtra_sync:
  assumes "sync monthStr i st" "j < length (fst st)" "i < length (fst st)"
    "distinct (map ident (fst st))"
  shows "sync monthStr i (ownExtra j st)"
  using payExtra_sync[OF assms] assms(1) by (simp add: ownExtra_def Let_def)

lemma fold_ownExtra_static:
  "map ident (fst (fold ownExtra js st)) = map ident (fst st)"
  "map paidOff (fst (fold ownExtra js st)) = map paidOff (fst st)"
  by (induction js arbitrary: st) (simp_all add: ownExtra_static)

lemma fold_ownExtra_frame:
  "i \<notin> set js \<Longrightarrow> \<forall>j \<in> set js. j < length (fst st) \<Longrightarrow> i < length (fst st) \<Longrightarrow>
   distinct (map ident (fst st)) \<Longrightarrow> frame i st (fold ownExtra js st)"
proof (induction js arbitrary: st)
  case Nil
  show ?case by (simp add: frame_refl)
next
  case (Cons j js)
  have f: "frame i st (ownExtra j st)" using Cons.prems by (intro ownExtra_frame) auto
  have len: "length (fst (ownExtra j st)) = length (fst st)" by (metis length_map ownExtra_static(1))
  have "frame i (ownExtra j st) (fold ownExtra js (ownExtra j st))"
    using Cons.prems by (intro Cons.IH) (simp_all add: len ownExtra_static)
  then show ?case using frame_trans[OF f] by simp
qed

lemma fold_ownExtra_sync:
  "sync monthStr i st \<Longrightarrow> \<forall>j \<in> set js. j < length (fst st) \<Longrightarrow> i < length (fst st) \<Longrightarrow>
   distinct (map ident (fst st)) \<Longrightarrow> sync monthStr i (fold ownExtra js st)"
proof (induction js arbitrary: st)
  case Nil
  then show ?case by simp
next
  case (Cons j js)
  have s: "sync monthStr i (ownExtra j st)" using Cons.prems by (intro ownExtra_sync) auto
  have len: "length (fst (ownExtra j st)) = length (fst st)" by (metis length_map ownExtra_static(1))
  have "sync monthStr i (fold ownExtra js (ownExtra j st))"
    using Cons.prems s by (intro Cons.IH) (simp_all add: len ownExtra_static)
  then show ?case by simp
qed

lemma poolTargets_subset: "set (poolTargets ds active) \<subseteq> set active"
  by (auto simp: poolTargets_set)

lemma applyExtras_static:
  "map ident (fst (applyExtras pooled budget active st)) = map ident (fst st)"
  "map paidOff (fst (applyExtras pooled budget active st)) = map paidOff (fst st)"
  by (simp_all add: applyExtras_def allocateExtra_static fold_ownExtra_static)

lemma applyExtras_frame:
  assumes "i \<notin> set active" "\<forall>j \<in> set active. j < length (fst st)" "i < length (fst st)"
    "distinct (map ident (fst st))"
  shows "frame i st (applyExtras pooled budget active st)"
proof -
  have "i \<notin> set (poolTargets (fst st) active)" using assms(1) poolTargets_subset by blast
  moreover have "\<forall>j \<in> set (poolTargets (fst st) active). j < length (fst st)"
    using assms(2) poolTargets_subset by blast
  ultimately show ?thesis
    using assms by (simp add: applyExtras_def allocateExtra_frame fold_ownExtra_frame)
qed

lemma applyExtras_sync:
  assumes "sync monthStr i st" "\<forall>j \<in> set active. j < length (fst st)" "i < length (fst st)"
    "distinct (map ident (fst st))"
  shows "sync monthStr i (applyExtras pooled budget active st)"
proof -
  have "\<forall>j \<in> set (poolTargets (fst st) active). j < length (fst st)"
    using assms(2) poolTargets_subset by blast
  then show ?thesis
    using assms by (simp add: applyExtras_def allocateExtra_sync fold_ownExtra_sync)
qed


lemma round2_small:
  assumes "0 \<le> b" "b \<le> 0.01"
  shows "0 \<le> round2 b" "round2 b \<le> 0.01"
proof -
  have "0 \<le> \<lfloor>b * 100 + 1 / 2\<rfloor>" using assms(1) by simp
  then show "0 \<le> round2 b" by (simp add: round2_def Math_round_def)
  have "b * 100 + 1 / 2 < 2" using assms(2) by simp
  then have "\<lfloor>b * 100 + 1 / 2\<rfloor> < 2" by (simp add: floor_less_iff)
  then have "\<lfloor>b * 100 + 1 / 2\<rfloor> \<le> 1" by simp
  then have "real_of_int \<lfloor>b * 100 + 1 / 2\<rfloor> \<le> 1" by linarith
  then show "round2 b \<le> 0.01" by (simp add: round2_def Math_round_def)
qed

lemma activeDebts_props:
  "distinct (activeDebts ds date)"
  "\<forall>j \<in> set (activeDebts ds date). j < length ds \<and> \<not> paidOff (ds ! j)"
  by (auto simp: activeDebts_def)

lemma monthStep_ident:
  "map ident (fst (monthStep pooled budget monthStr m active st)) = map ident (fst st)"
  by (simp add: monthStep_def Let_def fold_markPaidOff_ident applyExtras_static
      fold_payMinimum_static fold_chargeInterest_static)

lemma monthStep_settled:
  assumes "settled st" "debtsSane (fst st)" "distinct (map ident (fst st))"
    and act: "distinct active" "\<forall>j \<in> set active. j < length (fst st) \<and> \<not> paidOff (fst st ! j)"
  shows "settled (monthStep pooled budget monthStr m active st)"
proof -
  define st1 where "st1 = (fold chargeInterest active (fst st), snd st)"
  define st2 where "st2 = fold (payMinimum monthStr) active st1"
  define st3 where "st3 = applyExtras pooled budget active st2"
  define ds4 where "ds4 = fold (markPaidOff monthStr m) active (fst st3)"
  have res: "monthStep pooled budget monthStr m active st = (ds4, snd st3)"
    by (simp add: monthStep_def Let_def st1_def st2_def st3_def ds4_def)
  have id1: "map ident (fst st1) = map ident (fst st)"
    and po1: "map paidOff (fst st1) = map paidOff (fst st)"
    by (simp_all add: st1_def fold_chargeInterest_static)
  have id2: "map ident (fst st2) = map ident (fst st)"
    and po2: "map paidOff (fst st2) = map paidOff (fst st)"
    by (simp_all add: st2_def fold_payMinimum_static id1 po1)
  have id3: "map ident (fst st3) = map ident (fst st)"
    and po3: "map paidOff (fst st3) = map paidOff (fst st)"
    by (simp_all add: st3_def applyExtras_static id2 po2)
  have id4: "map ident ds4 = map ident (fst st)"
    by (simp add: ds4_def fold_markPaidOff_ident id3)
  have len1: "length (fst st1) = length (fst st)" using id1 by (metis length_map)
  have len2: "length (fst st2) = length (fst st)" using id2 by (metis length_map)
  have len3: "length (fst st3) = length (fst st)" using id3 by (metis length_map)
  have len4: "length ds4 = length (fst st)" using id4 by (metis length_map)
  have g1: "grows (fst st) (fst st1)" by (simp add: st1_def grows_fold grows_chargeInterest)
  have g2: "grows (fst st1) (fst st2)"
    unfolding st2_def by (rule grows_fold_state) (rule grows_payMinimum)
  have g3: "grows (fst st2) (fst st3)" unfolding st3_def by (rule grows_applyExtras)
  have sane3: "debtsSane (fst st3)"
    using grows_trans[OF grows_trans[OF g1 g2] g3] assms(2) by (simp add: grows_def)
  have in1: "\<forall>j \<in> set active. j < length (fst st1)" using act(2) len1 by simp
  have in2: "\<forall>j \<in> set active. j < length (fst st2)" using act(2) len2 by simp
  have d1: "distinct (map ident (fst st1))" using assms(3) id1 by simp
  have d2: "distinct (map ident (fst st2))" using assms(3) id2 by simp
  show ?thesis
    unfolding settled_def res fst_conv snd_conv
  proof (intro allI impI)
    fix i assume i: "i < length ds4" and paid: "paidOff (ds4 ! i)"
    have i0: "i < length (fst st)" using i len4 by simp
    show "balance (ds4 ! i) = 0 \<and>
          (\<exists>e. lastEntry (ident (ds4 ! i)) (snd st3) = Some e \<and>
               DebtPayoffMonth.month e = payoffMonth (ds4 ! i) \<and> isPaidOff e \<and>
               0 \<le> endingBalance e \<and> endingBalance e \<le> 0.01)"
    proof (cases "i \<in> set active")
      case True
      have np0: "\<not> paidOff (fst st ! i)" using act(2) True by blast
      have "paidOff (fst st3 ! i) = paidOff (fst st ! i)"
        using po3 i0 len3 by (metis nth_map)
      then have np3: "\<not> paidOff (fst st3 ! i)" using np0 by simp
      have v: "ds4 ! i =
          (if balance (fst st3 ! i) \<le> 0.01 \<and> \<not> paidOff (fst st3 ! i)
           then (fst st3 ! i)\<lparr>paidOff := True, balance := 0, payoffMonth := monthStr,
                                monthsToPayoff := m + 1\<rparr>
           else fst st3 ! i)"
        unfolding ds4_def using True act(1) i0 len3 by (intro fold_markPaidOff_active) simp_all
      have small: "balance (fst st3 ! i) \<le> 0.01"
        using paid np3 unfolding v by (auto split: if_splits)
      have v': "ds4 ! i = (fst st3 ! i)\<lparr>paidOff := True, balance := 0, payoffMonth := monthStr,
                                            monthsToPayoff := m + 1\<rparr>"
        using v small np3 by simp
      have "sync monthStr i st2"
        unfolding st2_def using True act(1) in1 d1 by (intro fold_payMinimum_sync) simp_all
      then have "sync monthStr i st3"
        unfolding st3_def using in2 i0 len2 d2 by (intro applyExtras_sync) simp_all
      then obtain e where e: "lastEntry (ident (fst st3 ! i)) (snd st3) = Some e"
          "DebtPayoffMonth.month e = monthStr" "endingBalance e = round2 (balance (fst st3 ! i))"
          "isPaidOff e = (balance (fst st3 ! i) \<le> 0.01)"
        by (auto simp: sync_def entrySync_def)
      have nonneg: "0 \<le> balance (fst st3 ! i)"
        using sane3 i0 len3 by (simp add: sane_nth)
      show ?thesis
        using e small round2_small[OF nonneg small] by (simp add: v')
    next
      case False
      have a: "ds4 ! i = fst st3 ! i" unfolding ds4_def using False by (rule fold_markPaidOff_other)
      have f3: "frame i st2 st3"
        unfolding st3_def using False in2 i0 len2 d2 by (intro applyExtras_frame) simp_all
      have f2: "frame i st1 st2"
        unfolding st2_def using False in1 i0 len1 d1 by (intro fold_payMinimum_frame) simp_all
      have b: "fst st1 ! i = fst st ! i" "snd st1 = snd st"
        using False by (simp_all add: st1_def fold_chargeInterest_other)
      have same: "fst st3 ! i = fst st ! i"
        "lastEntry (ident (fst st ! i)) (snd st3) = lastEntry (ident (fst st ! i)) (snd st)"
        using f2 f3 b by (simp_all add: frame_def)
      show ?thesis
        using assms(1) i0 paid unfolding a same(1) settled_def using same(2) by auto
    qed
  qed
qed

lemma payoffLoop_settled:
  "settled st \<Longrightarrow> debtsSane (fst st) \<Longrightarrow> distinct (map ident (fst st)) \<Longrightarrow>
   settled (payoffLoop maxMonths earliest pooled budget m st) \<and>
   map ident (fst (payoffLoop maxMonths earliest pooled budget m st)) = map ident (fst st)"
proof (induction maxMonths earliest pooled budget m st rule: payoffLoop.induct)
  case (1 maxMonths earliest pooled budget m st)
  show ?case
  proof (cases "m < maxMonths \<and> activeDebts (fst st) (addMonths earliest m) \<noteq> []")
    case True
    then have a: "m < maxMonths" "activeDebts (fst st) (addMonths earliest m) \<noteq> []" by simp_all
    let ?st' = "monthStep pooled budget (format_yyyy_MM (addMonths earliest m)) m
                  (activeDebts (fst st) (addMonths earliest m)) st"
    have s: "settled ?st'"
      using "1.prems" activeDebts_props[of "fst st" "addMonths earliest m"]
      by (intro monthStep_settled) simp_all
    have sane: "debtsSane (fst ?st')"
      using grows_monthStep[of st] "1.prems"(2) by (simp add: grows_def)
    have d: "distinct (map ident (fst ?st'))" using "1.prems"(3) by (simp add: monthStep_ident)
    show ?thesis
      using "1.IH"[OF a s sane d] a by (subst (1 2) payoffLoop.simps) (simp add: monthStep_ident)
  next
    case False
    then show ?thesis using "1.prems"(1) by (subst (1 2) payoffLoop.simps) auto
  qed
qed

lemma payoffRun_settled:
  assumes "plansSane plans" "distinct (map DebtPlan.ident plans)"
  shows "settled (payoffRun plans n)"
    and "map ident (fst (payoffRun plans n)) = map DebtPlan.ident plans"
proof -
  let ?ds = "map initDebt plans"
  have ids: "map ident ?ds = map DebtPlan.ident plans" by (simp add: initDebt_def)
  have 1: "settled (?ds, [])" by (simp add: settled_def initDebt_def)
  have 2: "debtsSane (fst (?ds, []))" using initDebt_sane[OF assms(1)] by simp
  have 3: "distinct (map ident (fst (?ds, [])))" unfolding fst_conv ids by (rule assms(2))
  note r = payoffLoop_settled[OF 1 2 3, unfolded fst_conv ids]
  show "settled (payoffRun plans n)"
    unfolding payoffRun_def Let_def using r by blast
  show "map ident (fst (payoffRun plans n)) = map DebtPlan.ident plans"
    unfolding payoffRun_def Let_def using r by blast
qed

lemma payoffRun_length: "length (fst (payoffRun plans n)) = length plans"
proof -
  have "grows (map initDebt plans) (fst (payoffRun plans n))"
    using grows_payoffLoop[of "(map initDebt plans, [])"] by (simp add: payoffRun_def Let_def)
  have "map ident (fst (payoffLoop k e p b m st)) = map ident (fst st)" for k e p b m st
  proof (induction k e p b m st rule: payoffLoop.induct)
    case (1 k e p b m st)
    show ?case
    proof (cases "m < k \<and> activeDebts (fst st) (addMonths e m) \<noteq> []")
      case True
      then have a: "m < k" "activeDebts (fst st) (addMonths e m) \<noteq> []" by simp_all
      show ?thesis using "1.IH"[OF a] a by (subst payoffLoop.simps) (simp add: monthStep_ident)
    next
      case False
      then show ?thesis by (subst payoffLoop.simps) auto
    qed
  qed
  then have "map ident (fst (payoffRun plans n)) = map ident (map initDebt plans)"
    by (simp add: payoffRun_def Let_def)
  then show ?thesis by (metis length_map)
qed


text \<open>
  Claim C8, as the code has it.  \<open>payoffRun plans n\<close> is the state of the month loop when
  it is capped at \<open>n\<close> months, so it is the state after month \<open>n\<close> of any longer run.  For
  debt plans with no negative principal, rate or minimum payment, the cumulative interest
  and the cumulative amount paid of every debt never decrease from month to month.  When
  the debt ids are distinct, a debt that is paid off has balance 0, and the last schedule
  entry with its id is the entry of its payoff month, is flagged paid off, and shows as its
  ending balance the residual balance rounded to cents: between 0 and 0.01, not always 0.
\<close>

theorem debt_totals_and_final_entry:
  assumes "plansSane plans" "n \<le> n'" "i < length plans"
  shows "totalInterest (fst (payoffRun plans n) ! i) \<le> totalInterest (fst (payoffRun plans n') ! i) \<and>
         totalPaid (fst (payoffRun plans n) ! i) \<le> totalPaid (fst (payoffRun plans n') ! i) \<and>
         (distinct (map DebtPlan.ident plans) \<and> paidOff (fst (payoffRun plans n) ! i) \<longrightarrow>
            balance (fst (payoffRun plans n) ! i) = 0 \<and>
            (\<exists>e. lastEntry (DebtPlan.ident (plans ! i)) (snd (payoffRun plans n)) = Some e \<and>
                 DebtPayoffMonth.month e = payoffMonth (fst (payoffRun plans n) ! i) \<and>
                 isPaidOff e \<and> 0 \<le> endingBalance e \<and> endingBalance e \<le> 0.01))"
proof -
  have len: "i < length (fst (payoffRun plans n))" using assms(3) by (simp add: payoffRun_length)
  have tot: "totalInterest (fst (payoffRun plans n) ! i) \<le> totalInterest (fst (payoffRun plans n') ! i)"
    "totalPaid (fst (payoffRun plans n) ! i) \<le> totalPaid (fst (payoffRun plans n') ! i)"
    using payoffRun_totals_grow[OF assms(1,2)] len by (simp_all add: totalsGrow_def)
  have fin: "balance (fst (payoffRun plans n) ! i) = 0 \<and>
            (\<exists>e. lastEntry (DebtPlan.ident (plans ! i)) (snd (payoffRun plans n)) = Some e \<and>
                 DebtPayoffMonth.month e = payoffMonth (fst (payoffRun plans n) ! i) \<and>
                 isPaidOff e \<and> 0 \<le> endingBalance e \<and> endingBalance e \<le> 0.01)"
    if d: "distinct (map DebtPlan.ident plans)" and p: "paidOff (fst (payoffRun plans n) ! i)"
  proof -
    note s = payoffRun_settled[OF assms(1) d, of n]
    have "ident (fst (payoffRun plans n) ! i) = DebtPlan.ident (plans ! i)"
      using s(2) len assms(3) by (metis nth_map)
    then show ?thesis using s(1) len p by (auto simp: settled_def)
  qed
  show ?thesis using tot fin by blast
qed

text \<open>Witness for C8: the debt of \<open>residuePlan\<close>, paid off in the first month.\<close>

theorem debt_totals_and_final_entry_witness:
  "plansSane [residuePlan] \<and> (1::nat) \<le> 2 \<and> 0 < length [residuePlan] \<and>
   distinct (map DebtPlan.ident [residuePlan]) \<and> paidOff (fst (payoffRun [residuePlan] 1) ! 0) \<and>
   totalPaid (fst (payoffRun [residuePlan] 1) ! 0) \<le> totalPaid (fst (payoffRun [residuePlan] 2) ! 0) \<and>
   balance (fst (payoffRun [residuePlan] 1) ! 0) = 0 \<and>
   (\<exists>e. lastEntry (DebtPlan.ident ([residuePlan] ! 0)) (snd (payoffRun [residuePlan] 1)) = Some e \<and>
        DebtPayoffMonth.month e = payoffMonth (fst (payoffRun [residuePlan] 1) ! 0) \<and>
        isPaidOff e \<and> 0 \<le> endingBalance e \<and> endingBalance e \<le> 0.01)"
proof -
  have h1: "plansSane [residuePlan]" by (simp add: plansSane_def residuePlan_def examplePlan_def)
  have h2: "(1::nat) \<le> 2" by simp
  have h3: "0 < length [residuePlan]" by simp
  have h4: "distinct (map DebtPlan.ident [residuePlan])" by simp
  have h5: "paidOff (fst (payoffRun [residuePlan] 1) ! 0)" by code_simp
  show ?thesis
    using h1 h2 h3 h4 h5 debt_totals_and_final_entry[OF h1 h2 h3] by blast
qed

text \<open>
  Counterexample to C8 as stated.  The debt of \<open>residuePlan\<close> is paid off in 2024-01 with
  a residual of 1/128: the engine records the balance 0 for it, and its only schedule entry
  ends at 0.01.  With the negative rate of \<open>negativeRatePlan\<close> the cumulative interest is -10
  after one month and -19.8 after two.
\<close>

theorem debt_schedule_counterexample:
  "map endingBalance (schedule (computeDebtPayoff [residuePlan] defaultMaxMonths)) = [1 / 100] \<and>
   map isPaidOff (schedule (computeDebtPayoff [residuePlan] defaultMaxMonths)) = [True] \<and>
   map payoffDate (summaries (computeDebtPayoff [residuePlan] defaultMaxMonths)) = [''2024-01''] \<and>
   map balance (fst (payoffRun [residuePlan] defaultMaxMonths)) = [0] \<and>
   map totalInterest (fst (payoffRun [negativeRatePlan] 1)) = [- 10] \<and>
   map totalInterest (fst (payoffRun [negativeRatePlan] 2)) = [- 99 / 5]"
  by code_simp

end
